theory Spec2Isabelle
  imports Main "HOL-Library.AList"
begin

section \<open>The signalling server (server.js): data model\<close>

text \<open>
  The room store is the JavaScript \<open>Map\<close> \<open>rooms\<close>: an association list in insertion order,
  read with \<^const>\<open>map_of\<close>, written with \<open>AList.update\<close> (\<open>Map.set\<close>: an existing key keeps
  its position, a new key goes last) and \<open>AList.delete\<close> (\<open>Map.delete\<close>).
  A room's \<open>listeners\<close> is a JavaScript \<open>Set\<close> of socket identifiers: a list in insertion
  order, \<open>set_add\<close> appending only an absent element.
\<close>

text \<open>
  The values a client can put in an event, as far as the handlers tell them apart:
  \<open>undefined\<close> (or \<open>null\<close>, or nothing in that position), a string, and a function,
  which is what socket.io passes for the acknowledgment callback.
\<close>

datatype jsval = Undefined | Str string | Fn

record room =
  room_id :: string
  name :: jsval
  streamUrl :: "string option"
  hostId :: string
  listeners :: "string list"
  createdAt :: nat
  status :: string
  isDemo :: bool

text \<open>What goes over the wire: \<open>{...r, listenerCount: r.listeners.size, listeners: undefined}\<close>.\<close>

record snapshot =
  snap_id :: string
  snap_name :: jsval
  snap_streamUrl :: "string option"
  snap_hostId :: string
  listenerCount :: nat
  snap_createdAt :: nat
  snap_status :: string
  snap_isDemo :: bool

record chat =
  msg_id :: string
  msg_text :: "string option"
  msg_system :: bool
  msg_timestamp :: nat
  msg_userId :: string

datatype join_ack = JoinFailed string | JoinOk snapshot

text \<open>
  The payloads the server sends. \<open>WebrtcSignal type payload senderId\<close>: the first two are
  whatever the sender put in the envelope (\<open>None\<close> is JavaScript's \<open>undefined\<close>).
\<close>

datatype msg =
    RoomList "snapshot list"
  | CreateAck room
  | JoinAck join_ack
  | UserJoined string
  | UserLeft string
  | WebrtcSignal "string option" "string option" string
  | HostStartStream
  | ListenerRequestConnection string
  | CheckStreamStatus string
  | NewMessage chat

text \<open>
  \<open>Emit ch rs m\<close> is one \<open>io.to(ch).emit(m)\<close> (or \<open>socket.to(ch).emit(m)\<close>): \<open>rs\<close> are the
  sockets that were in the socket.io room \<open>ch\<close> at that moment, each of which gets \<open>m\<close> once.
  \<open>Direct s m\<close> is \<open>socket.emit(m)\<close> or the acknowledgment callback of socket \<open>s\<close>.
\<close>

datatype out = Emit string "string set" msg | Direct string msg

datatype error = TypeError

text \<open>
  The process state. \<open>sockets\<close> are the live connections; \<open>adapter ch\<close> is the set of sockets
  in the socket.io room \<open>ch\<close> (socket.io keeps every socket in the room named by its own
  identifier, which is how \<open>io.to(socketId)\<close> reaches one socket); \<open>clock\<close> is what
  \<open>Date.now()\<close> returns, the same throughout one handler and moved on between events;
  \<open>outbox\<close> is everything sent so far, oldest first.
\<close>

record server =
  rooms :: "(string \<times> room) list"
  sockets :: "string set"
  adapter :: "string \<Rightarrow> string set"
  clock :: nat
  outbox :: "out list"

section \<open>JavaScript helpers\<close>

definition set_add :: "string \<Rightarrow> string list \<Rightarrow> string list" where
  "set_add x xs = (if x \<in> set xs then xs else xs @ [x])"

definition set_delete :: "string \<Rightarrow> string list \<Rightarrow> string list" where
  "set_delete x xs = removeAll x xs"

text \<open>
  The \<open>i\<close>-th positional argument of a handler: \<open>undefined\<close> past the end. And what
  \<open>x || y\<close> and \<open>if (x)\<close> take for true.
\<close>

definition param :: "jsval list \<Rightarrow> nat \<Rightarrow> jsval" where
  "param ps i = (if i < length ps then ps ! i else Undefined)"

fun truthy :: "jsval \<Rightarrow> bool" where
  "truthy Undefined = False"
| "truthy (Str x) = (x \<noteq> [])"
| "truthy Fn = True"

definition digit_char :: "nat \<Rightarrow> char" where
  "digit_char d = (''0123456789'' ! d)"

text \<open>\<open>Number.prototype.toString()\<close> of a non-negative integer: its decimal digits.\<close>

fun toString :: "nat \<Rightarrow> string" where
  "toString n = (if n < 10 then [digit_char n] else toString (n div 10) @ [digit_char (n mod 10)])"

declare toString.simps [simp del]

text \<open>\<open>s.slice(-6)\<close>: the last six characters, the whole string when it is shorter.\<close>

definition slice_last6 :: "string \<Rightarrow> string" where
  "slice_last6 s = drop (length s - 6) s"

section \<open>socket.io primitives\<close>

definition socket_join :: "string \<Rightarrow> string \<Rightarrow> server \<Rightarrow> server" where
  "socket_join s ch st = st\<lparr>adapter := (adapter st)(ch := insert s (adapter st ch))\<rparr>"

definition socket_leave :: "string \<Rightarrow> string \<Rightarrow> server \<Rightarrow> server" where
  "socket_leave s ch st = st\<lparr>adapter := (adapter st)(ch := adapter st ch - {s})\<rparr>"

definition io_to_emit :: "string \<Rightarrow> msg \<Rightarrow> server \<Rightarrow> server" where
  "io_to_emit ch m st = st\<lparr>outbox := outbox st @ [Emit ch (adapter st ch) m]\<rparr>"

text \<open>\<open>socket.to(ch).emit(m)\<close>: everyone in the room except the sender.\<close>

definition socket_to_emit :: "string \<Rightarrow> string \<Rightarrow> msg \<Rightarrow> server \<Rightarrow> server" where
  "socket_to_emit s ch m st = st\<lparr>outbox := outbox st @ [Emit ch (adapter st ch - {s}) m]\<rparr>"

definition socket_emit :: "string \<Rightarrow> msg \<Rightarrow> server \<Rightarrow> server" where
  "socket_emit s m st = st\<lparr>outbox := outbox st @ [Direct s m]\<rparr>"

text \<open>A new connection: socket.io registers the socket and puts it in its own room.\<close>

definition socket_open :: "string \<Rightarrow> server \<Rightarrow> server" where
  "socket_open s st = socket_join s s (st\<lparr>sockets := insert s (sockets st)\<rparr>)"

text \<open>
  A closing connection: socket.io takes the socket out of every room and out of the
  namespace before the \<open>disconnect\<close> event reaches the handler.
\<close>

definition socket_close :: "string \<Rightarrow> server \<Rightarrow> server" where
  "socket_close s st = st\<lparr>sockets := sockets st - {s}, adapter := (\<lambda>ch. adapter st ch - {s})\<rparr>"

section \<open>Start-up\<close>

definition demo_room :: "nat \<Rightarrow> string \<Rightarrow> string \<Rightarrow> string \<Rightarrow> room" where
  "demo_room t i n u =
     \<lparr>room_id = i, name = Str n, streamUrl = Some u, hostId = ''SYSTEM'', listeners = [],
      createdAt = t, status = ''active'', isDemo = True\<rparr>"

definition DEMO_ROOMS :: "nat \<Rightarrow> room list" where
  "DEMO_ROOMS t =
     [demo_room t ''demo-nts-1'' ''NTS Radio 1'' ''https://stream-relay-geo.ntslive.net/stream'',
      demo_room t ''demo-soma-groove'' ''SomaFM Groove Salad''
        ''https://ice2.somafm.com/groovesalad-128-mp3'',
      demo_room t ''demo-soma-defcon'' ''SomaFM DEF CON Radio''
        ''https://ice2.somafm.com/defcon-128-mp3'',
      demo_room t ''demo-lofi'' ''Lofi Girl Radio'' ''https://play.streamafrica.net/lofiradio'']"

text \<open>The state when the server starts listening at time \<open>t\<close>.\<close>

definition init :: "nat \<Rightarrow> server" where
  "init t =
     \<lparr>rooms = fold (\<lambda>r m. AList.update (room_id r) r m) (DEMO_ROOMS t) [],
      sockets = {}, adapter = (\<lambda>ch. {}), clock = t, outbox = []\<rparr>"

section \<open>Event handlers\<close>

definition snapshot_of :: "room \<Rightarrow> snapshot" where
  "snapshot_of r =
     \<lparr>snap_id = room_id r, snap_name = name r, snap_streamUrl = streamUrl r,
      snap_hostId = hostId r, listenerCount = length (listeners r),
      snap_createdAt = createdAt r, snap_status = status r, snap_isDemo = isDemo r\<rparr>"

definition list_rooms :: "server \<Rightarrow> snapshot list" where
  "list_rooms st = map (\<lambda>kr. snapshot_of (snd kr)) (rooms st)"

definition broadcastLobbyUpdate :: "server \<Rightarrow> server" where
  "broadcastLobbyUpdate st = io_to_emit ''lobby'' (RoomList (list_rooms st)) st"

definition on_join_lobby :: "string \<Rightarrow> server \<Rightarrow> server" where
  "on_join_lobby s st =
     (let st1 = socket_join s ''lobby'' st
      in socket_emit s (RoomList (list_rooms st1)) st1)"

text \<open>
  \<open>create-room\<close> and \<open>join-room\<close> are \<open>(name, callback) => ...\<close> and
  \<open>(roomId, callback) => ...\<close>: \<open>ps\<close> is what socket.io passes, the values the client
  sent followed by the acknowledgment function when it sent one. So the callback is the
  second argument, whatever it is; calling anything but a function throws a \<open>TypeError\<close>
  out of the handler, after what precedes the call has been done.
\<close>

definition new_room_id :: "nat \<Rightarrow> string" where
  "new_room_id t = ''room-'' @ slice_last6 (toString t)"

definition new_room :: "string \<Rightarrow> string \<Rightarrow> jsval \<Rightarrow> nat \<Rightarrow> room" where
  "new_room roomId s nm t =
     \<lparr>room_id = roomId,
      name = (if truthy nm then nm else Str (''Signal '' @ roomId)),
      streamUrl = None, hostId = s, listeners = [], createdAt = t,
      status = ''active'', isDemo = False\<rparr>"

definition on_create_room :: "string \<Rightarrow> jsval list \<Rightarrow> server \<Rightarrow> error + server" where
  "on_create_room s ps st =
     (let nm = param ps 0;
          callback = param ps 1;
          roomId = new_room_id (clock st);
          newRoom = new_room roomId s nm (clock st);
          st1 = st\<lparr>rooms := AList.update roomId newRoom (rooms st)\<rparr>;
          st2 = socket_join s roomId st1
      in if callback \<noteq> Fn then Inl TypeError
         else Inr (broadcastLobbyUpdate (socket_emit s (CreateAck newRoom) st2)))"

text \<open>\<open>rooms.get(x)\<close>: only a string is a key of the store.\<close>

definition rooms_get :: "server \<Rightarrow> jsval \<Rightarrow> (string \<times> room) option" where
  "rooms_get st x =
     (case x of
        Str k \<Rightarrow> (case map_of (rooms st) k of None \<Rightarrow> None | Some r \<Rightarrow> Some (k, r))
      | other \<Rightarrow> None)"

definition on_join_room :: "string \<Rightarrow> jsval list \<Rightarrow> server \<Rightarrow> error + server" where
  "on_join_room s ps st =
     (let roomId = param ps 0;
          callback = param ps 1
      in case rooms_get st roomId of
           None \<Rightarrow>
             if callback \<noteq> Fn then Inl TypeError
             else Inr (socket_emit s (JoinAck (JoinFailed ''Room not found or signal lost.'')) st)
         | Some (k, r) \<Rightarrow>
             (let st1 = socket_join s k st;
                  r' = r\<lparr>listeners := set_add s (listeners r)\<rparr>;
                  st2 = st1\<lparr>rooms := AList.update k r' (rooms st1)\<rparr>;
                  st3 = io_to_emit (hostId r') (UserJoined s) st2
              in if callback \<noteq> Fn then Inl TypeError
                 else Inr (broadcastLobbyUpdate
                             (socket_emit s (JoinAck (JoinOk (snapshot_of r'))) st3))))"

definition sys_destroy :: "nat \<Rightarrow> chat" where
  "sys_destroy t =
     \<lparr>msg_id = ''sys-destroy'', msg_text = Some ''HOST DISCONNECTED. SIGNAL LOST.'',
      msg_system = True, msg_timestamp = t, msg_userId = ''SYSTEM''\<rparr>"

definition handleLeaveRoom :: "string \<Rightarrow> string \<Rightarrow> server \<Rightarrow> server" where
  "handleLeaveRoom s roomId st =
     (case map_of (rooms st) roomId of
        None \<Rightarrow> st
      | Some r \<Rightarrow>
          if isDemo r then
            (let st1 = st\<lparr>rooms := AList.update roomId
                                     (r\<lparr>listeners := set_delete s (listeners r)\<rparr>) (rooms st)\<rparr>;
                 st2 = socket_leave s roomId st1;
                 st3 = io_to_emit roomId (UserLeft s) st2
             in broadcastLobbyUpdate st3)
          else if hostId r = s then
            (let st1 = io_to_emit roomId (NewMessage (sys_destroy (clock st))) st;
                 st2 = st1\<lparr>rooms := AList.delete roomId (rooms st1)\<rparr>
             in broadcastLobbyUpdate st2)
          else
            (let st1 = st\<lparr>rooms := AList.update roomId
                                     (r\<lparr>listeners := set_delete s (listeners r)\<rparr>) (rooms st)\<rparr>;
                 st2 = socket_leave s roomId st1;
                 st3 = io_to_emit roomId (UserLeft s) st2
             in broadcastLobbyUpdate st3))"

text \<open>
  \<open>webrtc-signal\<close>. The handler destructures its argument, so an absent argument throws;
  a field absent from the object is \<open>undefined\<close>. No socket is in the room \<open>undefined\<close>,
  so an envelope without \<open>targetUserId\<close> reaches nobody.
\<close>

record signal_args =
  sig_type :: "string option"
  sig_payload :: "string option"
  targetUserId :: "string option"

definition on_webrtc_signal :: "string \<Rightarrow> signal_args option \<Rightarrow> server \<Rightarrow> error + server" where
  "on_webrtc_signal s arg st =
     (case arg of
        None \<Rightarrow> Inl TypeError
      | Some a \<Rightarrow>
          (case targetUserId a of
             None \<Rightarrow> Inr st
           | Some t \<Rightarrow> Inr (io_to_emit t (WebrtcSignal (sig_type a) (sig_payload a) s) st)))"

text \<open>
  The stream handshake and the chat: each takes one object; the outer \<open>option\<close> is the
  object, the inner ones its fields. Only \<open>undefined\<close> and \<open>null\<close> fail to destructure:
  any other value in that position is an object, with none of the fields if it is not one
  the client built for the event. A message without \<open>roomId\<close> reaches nobody; a chat
  message without \<open>text\<close> is relayed without it.
\<close>

definition on_host_start_stream :: "string \<Rightarrow> string option option \<Rightarrow> server \<Rightarrow> error + server" where
  "on_host_start_stream s arg st =
     (case arg of
        None \<Rightarrow> Inl TypeError
      | Some None \<Rightarrow> Inr st
      | Some (Some roomId) \<Rightarrow> Inr (socket_to_emit s roomId HostStartStream st))"

definition on_listener_request_connection ::
  "string \<Rightarrow> string option option \<Rightarrow> server \<Rightarrow> error + server" where
  "on_listener_request_connection s arg st =
     (case arg of
        None \<Rightarrow> Inl TypeError
      | Some None \<Rightarrow> Inr st
      | Some (Some roomId) \<Rightarrow>
          (case map_of (rooms st) roomId of
             None \<Rightarrow> Inr st
           | Some r \<Rightarrow>
               if hostId r \<noteq> [] then Inr (io_to_emit (hostId r) (ListenerRequestConnection s) st)
               else Inr st))"

definition on_check_stream_status ::
  "string \<Rightarrow> string option option \<Rightarrow> server \<Rightarrow> error + server" where
  "on_check_stream_status s arg st =
     (case arg of
        None \<Rightarrow> Inl TypeError
      | Some None \<Rightarrow> Inr st
      | Some (Some roomId) \<Rightarrow>
          (case map_of (rooms st) roomId of
             None \<Rightarrow> Inr st
           | Some r \<Rightarrow>
               if hostId r \<noteq> [] then Inr (io_to_emit (hostId r) (CheckStreamStatus s) st)
               else Inr st))"

definition on_stream_status_reply ::
  "string \<Rightarrow> (string option \<times> bool) option \<Rightarrow> server \<Rightarrow> error + server" where
  "on_stream_status_reply s arg st =
     (case arg of
        None \<Rightarrow> Inl TypeError
      | Some (requesterId, isStreaming) \<Rightarrow>
          if isStreaming then
            (case requesterId of None \<Rightarrow> Inr st | Some t \<Rightarrow> Inr (io_to_emit t HostStartStream st))
          else Inr st)"

definition on_send_message ::
  "string \<Rightarrow> (string option \<times> string option) option \<Rightarrow> server \<Rightarrow> error + server" where
  "on_send_message s arg st =
     (case arg of
        None \<Rightarrow> Inl TypeError
      | Some (roomId, txt) \<Rightarrow>
          (case roomId of
             None \<Rightarrow> Inr st
           | Some ch \<Rightarrow>
               Inr (io_to_emit ch
                      (NewMessage \<lparr>msg_id = s @ ''-'' @ toString (clock st),
                                   msg_text = txt,
                                   msg_system = False, msg_timestamp = clock st,
                                   msg_userId = s\<rparr>) st)))"

text \<open>
  \<open>disconnect\<close>: \<open>rooms.forEach\<close> visits the keys in insertion order and reads each room
  when it gets there; \<open>handleLeaveRoom\<close> touches no other key than the one visited.
\<close>

definition visit :: "string \<Rightarrow> string \<Rightarrow> server \<Rightarrow> server" where
  "visit s roomId st =
     (case map_of (rooms st) roomId of
        None \<Rightarrow> st
      | Some r \<Rightarrow>
          if hostId r = s \<or> s \<in> set (listeners r) then handleLeaveRoom s roomId st else st)"

definition on_disconnect :: "string \<Rightarrow> server \<Rightarrow> server" where
  "on_disconnect s st = fold (visit s) (map fst (rooms st)) st"

section \<open>The server as a transition system\<close>

datatype event =
    Connect string
  | Tick nat
  | JoinLobby string
  | CreateRoom string "jsval list"
  | JoinRoom string "jsval list"
  | LeaveRoom string string
  | Signal string "signal_args option"
  | HostStart string "string option option"
  | ListenerRequest string "string option option"
  | CheckStatus string "string option option"
  | StatusReply string "(string option \<times> bool) option"
  | SendMessage string "(string option \<times> string option) option"
  | Disconnect string

text \<open>
  One event, processed to completion (Node runs each handler to its end before the next).
  \<open>Inl\<close>: the handler threw; nothing catches it, and the process ends.
\<close>

fun step :: "event \<Rightarrow> server \<Rightarrow> error + server" where
  "step (Connect s) st = Inr (socket_open s st)"
| "step (Tick n) st = Inr (st\<lparr>clock := clock st + n\<rparr>)"
| "step (JoinLobby s) st = Inr (on_join_lobby s st)"
| "step (CreateRoom s ps) st = on_create_room s ps st"
| "step (JoinRoom s ps) st = on_join_room s ps st"
| "step (LeaveRoom s roomId) st = Inr (handleLeaveRoom s roomId st)"
| "step (Signal s arg) st = on_webrtc_signal s arg st"
| "step (HostStart s arg) st = on_host_start_stream s arg st"
| "step (ListenerRequest s arg) st = on_listener_request_connection s arg st"
| "step (CheckStatus s arg) st = on_check_stream_status s arg st"
| "step (StatusReply s arg) st = on_stream_status_reply s arg st"
| "step (SendMessage s arg) st = on_send_message s arg st"
| "step (Disconnect s) st = Inr (on_disconnect s (socket_close s st))"

text \<open>
  What the transport can deliver: a connection gets a fresh identifier of twenty
  characters (engine.io's generator), and every other event comes from a live connection.
\<close>

fun admissible :: "event \<Rightarrow> server \<Rightarrow> bool" where
  "admissible (Connect s) st = (s \<notin> sockets st \<and> length s = 20)"
| "admissible (Tick n) st = True"
| "admissible (JoinLobby s) st = (s \<in> sockets st)"
| "admissible (CreateRoom s ps) st = (s \<in> sockets st)"
| "admissible (JoinRoom s ps) st = (s \<in> sockets st)"
| "admissible (LeaveRoom s roomId) st = (s \<in> sockets st)"
| "admissible (Signal s arg) st = (s \<in> sockets st)"
| "admissible (HostStart s arg) st = (s \<in> sockets st)"
| "admissible (ListenerRequest s arg) st = (s \<in> sockets st)"
| "admissible (CheckStatus s arg) st = (s \<in> sockets st)"
| "admissible (StatusReply s arg) st = (s \<in> sockets st)"
| "admissible (SendMessage s arg) st = (s \<in> sockets st)"
| "admissible (Disconnect s) st = (s \<in> sockets st)"

text \<open>
  Running a trace: \<open>Some st\<close> when every event could be delivered and no handler threw.
\<close>

fun run :: "event list \<Rightarrow> server \<Rightarrow> server option" where
  "run [] st = Some st"
| "run (e # es) st =
     (if admissible e st
      then (case step e st of Inl err \<Rightarrow> None | Inr st' \<Rightarrow> run es st')
      else None)"

section \<open>Observations and auxiliary notions\<close>

text \<open>The room store after a trace, and what the trace sent (empty when the trace fails).\<close>

definition store :: "event list \<Rightarrow> server \<Rightarrow> (string \<times> room) list" where
  "store evs st = (case run evs st of None \<Rightarrow> [] | Some st' \<Rightarrow> rooms st')"

definition sent :: "event list \<Rightarrow> server \<Rightarrow> out list" where
  "sent evs st =
     (case run evs st of None \<Rightarrow> [] | Some st' \<Rightarrow> drop (length (outbox st)) (outbox st'))"

text \<open>
  An event that carries its argument object or, where the handler acknowledges, the
  acknowledgment function as its second argument; the first argument, and the fields inside
  the object, may still be missing.
\<close>

fun well_formed :: "event \<Rightarrow> bool" where
  "well_formed (CreateRoom s ps) = (param ps 1 = Fn)"
| "well_formed (JoinRoom s ps) = (param ps 1 = Fn)"
| "well_formed (Signal s arg) = (arg \<noteq> None)"
| "well_formed (HostStart s arg) = (arg \<noteq> None)"
| "well_formed (ListenerRequest s arg) = (arg \<noteq> None)"
| "well_formed (CheckStatus s arg) = (arg \<noteq> None)"
| "well_formed (StatusReply s arg) = (arg \<noteq> None)"
| "well_formed (SendMessage s arg) = (arg \<noteq> None)"
| "well_formed e = True"

text \<open>The events that only relay: signalling, stream handshake and chat.\<close>

fun relay :: "event \<Rightarrow> bool" where
  "relay (Signal s arg) = True"
| "relay (HostStart s arg) = True"
| "relay (ListenerRequest s arg) = True"
| "relay (CheckStatus s arg) = True"
| "relay (StatusReply s arg) = True"
| "relay (SendMessage s arg) = True"
| "relay e = False"

text \<open>
  A relay event whose object lacks the field that says where it goes.
\<close>

fun unaddressed :: "event \<Rightarrow> bool" where
  "unaddressed (Signal s (Some a)) = (targetUserId a = None)"
| "unaddressed (HostStart s (Some None)) = True"
| "unaddressed (ListenerRequest s (Some None)) = True"
| "unaddressed (CheckStatus s (Some None)) = True"
| "unaddressed (StatusReply s (Some (None, b))) = True"
| "unaddressed (SendMessage s (Some (None, t))) = True"
| "unaddressed e = False"

text \<open>
  What the \<open>disconnect\<close> scan leaves of the room store: a room of another host loses the
  socket from its listeners, a non-demo room hosted by the socket goes.
\<close>

fun purge :: "string \<Rightarrow> (string \<times> room) list \<Rightarrow> (string \<times> room) list" where
  "purge s [] = []"
| "purge s ((k, r) # rs) =
     (if hostId r = s \<or> s \<in> set (listeners r)
      then (if isDemo r \<or> hostId r \<noteq> s
            then (k, r\<lparr>listeners := set_delete s (listeners r)\<rparr>) # purge s rs
            else purge s rs)
      else (k, r) # purge s rs)"

text \<open>
  The invariant of the reachable states. A room is stored under its own identifier, which is
  shorter than a socket identifier; demo rooms are the rooms hosted by \<open>SYSTEM\<close>; every
  listener, and the host of a user room, is in the socket.io room of that name. Every live
  socket is alone in the socket.io room of its own name, and only live sockets are in rooms.
\<close>

definition room_ok :: "server \<Rightarrow> string \<Rightarrow> room \<Rightarrow> bool" where
  "room_ok st k r \<longleftrightarrow>
     room_id r = k \<and> length k < 20 \<and> k \<noteq> ''SYSTEM'' \<and>
     (isDemo r \<longleftrightarrow> hostId r = ''SYSTEM'') \<and>
     set (listeners r) \<subseteq> adapter st k \<and> (\<not> isDemo r \<longrightarrow> hostId r \<in> adapter st k)"

definition rooms_ok :: "server \<Rightarrow> bool" where
  "rooms_ok st \<longleftrightarrow>
     distinct (map fst (rooms st)) \<and>
     (\<forall>k r. map_of (rooms st) k = Some r \<longrightarrow> room_ok st k r)"

definition sockets_ok :: "server \<Rightarrow> bool" where
  "sockets_ok st \<longleftrightarrow>
     (\<forall>s \<in> sockets st. length s = 20 \<and> s \<in> adapter st s) \<and>
     (\<forall>ch. adapter st ch \<subseteq> sockets st) \<and>
     (\<forall>ch. length ch = 20 \<longrightarrow> adapter st ch \<subseteq> {ch}) \<and>
     adapter st ''SYSTEM'' = {}"

definition wf :: "server \<Rightarrow> bool" where
  "wf st \<longleftrightarrow> rooms_ok st \<and> sockets_ok st"

text \<open>No room has its host among its listeners.\<close>

definition host_free :: "server \<Rightarrow> bool" where
  "host_free st = list_all (\<lambda>kr. hostId (snd kr) \<notin> set (listeners (snd kr))) (rooms st)"

text \<open>The event is a \<open>join-room\<close> sent by the host of the room it names.\<close>

fun host_join :: "event \<Rightarrow> server \<Rightarrow> bool" where
  "host_join (JoinRoom s ps) st =
     (case rooms_get st (param ps 0) of None \<Rightarrow> False | Some (k, r) \<Rightarrow> hostId r = s)"
| "host_join e st = False"

fun no_host_join :: "event list \<Rightarrow> server \<Rightarrow> bool" where
  "no_host_join [] st = True"
| "no_host_join (e # es) st =
     (\<not> host_join e st \<and>
      (case step e st of Inl err \<Rightarrow> True | Inr st' \<Rightarrow> no_host_join es st'))"

text \<open>The socket hosts no room and listens to none.\<close>

definition in_no_room :: "string \<Rightarrow> server \<Rightarrow> bool" where
  "in_no_room s st =
     list_all (\<lambda>kr. hostId (snd kr) \<noteq> s \<and> s \<notin> set (listeners (snd kr))) (rooms st)"

text \<open>
  Every demo room of the start-up list is in the store under its identifier, equal to what
  it was at start-up but for its listeners.
\<close>

definition kept :: "string \<Rightarrow> room \<Rightarrow> server \<Rightarrow> bool" where
  "kept k d st \<longleftrightarrow> (\<exists>r. map_of (rooms st) k = Some r \<and> r\<lparr>listeners := []\<rparr> = d)"

definition demo_kept :: "nat \<Rightarrow> server \<Rightarrow> bool" where
  "demo_kept t st =
     list_all (\<lambda>d. case map_of (rooms st) (room_id d) of
                      None \<Rightarrow> False
                    | Some r \<Rightarrow> r\<lparr>listeners := []\<rparr> = d) (DEMO_ROOMS t)"

text \<open>
  Whether an output is a system notice that reaches socket \<open>z\<close>; the system notices
  \<open>z\<close> receives between two states; and the user rooms a socket hosts.
\<close>

fun notice_for :: "string \<Rightarrow> out \<Rightarrow> bool" where
  "notice_for z (Emit ch rs (NewMessage c)) = (z \<in> rs \<and> msg_system c)"
| "notice_for z other = False"

definition received :: "string \<Rightarrow> server \<Rightarrow> server \<Rightarrow> out list" where
  "received z st st' = filter (notice_for z) (drop (length (outbox st)) (outbox st'))"

definition hosted :: "string \<Rightarrow> server \<Rightarrow> (string \<times> room) list" where
  "hosted h st = filter (\<lambda>kr. \<not> isDemo (snd kr) \<and> hostId (snd kr) = h) (rooms st)"

text \<open>
  No room under \<open>k\<close>: the store has none, the room list names none, and a join on \<open>k\<close>
  answers the failure acknowledgment.
\<close>

definition gone :: "string \<Rightarrow> server \<Rightarrow> bool" where
  "gone k st \<longleftrightarrow>
     map_of (rooms st) k = None \<and> k \<notin> set (map snap_id (list_rooms st)) \<and>
     (\<forall>z. on_join_room z [Str k, Fn] st =
        Inr (socket_emit z (JoinAck (JoinFailed ''Room not found or signal lost.'')) st))"

text \<open>The event is a \<open>create-room\<close> that gets the identifier \<open>k\<close>; a trace has one.\<close>

fun allocates :: "string \<Rightarrow> event \<Rightarrow> server \<Rightarrow> bool" where
  "allocates k (CreateRoom s ps) st = (new_room_id (clock st) = k)"
| "allocates k e st = False"

fun recreated :: "string \<Rightarrow> event list \<Rightarrow> server \<Rightarrow> bool" where
  "recreated k [] st = False"
| "recreated k (e # es) st =
     (allocates k e st \<or>
      (case step e st of Inl err \<Rightarrow> False | Inr st' \<Rightarrow> recreated k es st'))"

text \<open>No room under \<open>k\<close>, now and after every trace that does not allocate \<open>k\<close> again.\<close>

definition stays_gone :: "string \<Rightarrow> server \<Rightarrow> bool" where
  "stays_gone k st \<longleftrightarrow>
     (\<forall>es st'. \<not> recreated k es st \<longrightarrow> run es st = Some st' \<longrightarrow> gone k st')"

text \<open>Three connections and a small scenario, for the concrete instances below.\<close>

abbreviation (input) sock_h :: string where "sock_h \<equiv> ''hhhhhhhhhhhhhhhhhhhh''"
abbreviation (input) sock_l :: string where "sock_l \<equiv> ''llllllllllllllllllll''"
abbreviation (input) sock_x :: string where "sock_x \<equiv> ''xxxxxxxxxxxxxxxxxxxx''"

abbreviation (input) scenario :: "event list" where
  "scenario \<equiv> [Connect sock_h, Connect sock_l, Connect sock_x,
     CreateRoom sock_h [Str ''Test'', Fn], JoinRoom sock_l [Str ''room-0'', Fn]]"

abbreviation (input) lofi :: room where
  "lofi \<equiv> demo_room 0 ''demo-lofi'' ''Lofi Girl Radio'' ''https://play.streamafrica.net/lofiradio''"

section \<open>Evaluation\<close>

lemmas ev_defs = store_def sent_def init_def DEMO_ROOMS_def demo_room_def socket_open_def
  socket_join_def socket_leave_def socket_close_def io_to_emit_def socket_emit_def
  socket_to_emit_def on_create_room_def new_room_id_def new_room_def on_join_room_def
  rooms_get_def param_def
  handleLeaveRoom_def
  broadcastLobbyUpdate_def on_join_lobby_def on_webrtc_signal_def on_disconnect_def visit_def
  list_rooms_def snapshot_of_def set_add_def set_delete_def slice_last6_def toString.simps
  digit_char_def Let_def sys_destroy_def

lemma init_lofi: "map_of (rooms (init 0)) ''demo-lofi'' = Some lofi"
  by (simp add: ev_defs)

lemma init_no_room: "map_of (rooms (init 0)) ''room-000001'' = None"
  by (simp add: ev_defs)

section \<open>The room store under the handlers\<close>

lemma map_of_mid:
  "k \<notin> fst ` set pre \<Longrightarrow> map_of (pre @ (k, r) # post) k = Some r"
  by (induction pre) auto

lemma update_mid:
  "k \<notin> fst ` set pre \<Longrightarrow> AList.update k v (pre @ (k, r) # post) = pre @ (k, v) # post"
  by (induction pre) auto

lemma delete_notin: "k \<notin> fst ` set al \<Longrightarrow> AList.delete k al = al"
  by (induction al) auto

lemma delete_mid:
  "k \<notin> fst ` set pre \<Longrightarrow> k \<notin> fst ` set post \<Longrightarrow>
   AList.delete k (pre @ (k, r) # post) = pre @ post"
  by (induction pre) (auto simp add: delete_notin)

lemma hLR_rooms:
  "rooms (handleLeaveRoom s k st) =
     (case map_of (rooms st) k of
        None \<Rightarrow> rooms st
      | Some r \<Rightarrow>
          if isDemo r \<or> hostId r \<noteq> s
          then AList.update k (r\<lparr>listeners := set_delete s (listeners r)\<rparr>) (rooms st)
          else AList.delete k (rooms st))"
  by (simp add: handleLeaveRoom_def Let_def broadcastLobbyUpdate_def io_to_emit_def
      socket_leave_def split: option.splits)

lemma hLR_adapter:
  "adapter (handleLeaveRoom s k st) =
     (case map_of (rooms st) k of
        None \<Rightarrow> adapter st
      | Some r \<Rightarrow>
          if isDemo r \<or> hostId r \<noteq> s
          then (adapter st)(k := adapter st k - {s})
          else adapter st)"
  by (simp add: handleLeaveRoom_def Let_def broadcastLobbyUpdate_def io_to_emit_def
      socket_leave_def split: option.splits)

lemma hLR_sockets [simp]: "sockets (handleLeaveRoom s k st) = sockets st"
  by (simp add: handleLeaveRoom_def Let_def broadcastLobbyUpdate_def io_to_emit_def
      socket_leave_def split: option.splits)

lemma hLR_clock [simp]: "clock (handleLeaveRoom s k st) = clock st"
  by (simp add: handleLeaveRoom_def Let_def broadcastLobbyUpdate_def io_to_emit_def
      socket_leave_def split: option.splits)

lemma visit_sockets [simp]: "sockets (visit s k st) = sockets st"
  by (simp add: visit_def split: option.splits)

lemma visit_clock [simp]: "clock (visit s k st) = clock st"
  by (simp add: visit_def split: option.splits)

lemma visit_adapter:
  "s \<notin> adapter st k \<Longrightarrow> adapter (visit s k st) = adapter st"
  by (auto simp add: visit_def hLR_adapter split: option.splits)

lemma visit_rooms_mid:
  assumes "rooms st = pre @ (k, r) # post" and "k \<notin> fst ` set pre" and "k \<notin> fst ` set post"
  shows "rooms (visit s k st) = pre @ purge s [(k, r)] @ post"
proof -
  have m: "map_of (rooms st) k = Some r"
    unfolding assms(1) using assms(2) by (rule map_of_mid)
  have u: "AList.update k v (rooms st) = pre @ (k, v) # post" for v
    unfolding assms(1) using assms(2) by (rule update_mid)
  have d: "AList.delete k (rooms st) = pre @ post"
    unfolding assms(1) using assms(2,3) by (rule delete_mid)
  show ?thesis
  proof (cases "hostId r = s \<or> s \<in> set (listeners r)")
    case True
    then show ?thesis
      by (auto simp add: visit_def hLR_rooms m u d)
  next
    case False
    then have "visit s k st = st"
      by (simp add: visit_def m)
    with False show ?thesis
      by (simp add: assms(1))
  qed
qed

lemma purge_Cons: "purge s (x # xs) = purge s [x] @ purge s xs"
  by (cases x) auto

lemma purge_keys: "fst ` set (purge s rs) \<subseteq> fst ` set rs"
  by (induction s rs rule: purge.induct) auto

lemma fold_visit_sockets [simp]: "sockets (fold (visit s) ks st) = sockets st"
  by (induction ks arbitrary: st) auto

lemma fold_visit_clock [simp]: "clock (fold (visit s) ks st) = clock st"
  by (induction ks arbitrary: st) auto

lemma fold_visit_adapter:
  "\<forall>ch. s \<notin> adapter st ch \<Longrightarrow> adapter (fold (visit s) ks st) = adapter st"
  by (induction ks arbitrary: st) (auto simp add: visit_adapter)

lemma fold_visit_rooms:
  "rooms st = pre @ todo \<Longrightarrow> distinct (map fst (rooms st)) \<Longrightarrow>
   rooms (fold (visit s) (map fst todo) st) = pre @ purge s todo"
proof (induction todo arbitrary: pre st)
  case Nil
  then show ?case by simp
next
  case (Cons x todo)
  obtain k r where x: "x = (k, r)" by (cases x)
  from Cons.prems have kpre: "k \<notin> fst ` set pre" and kpost: "k \<notin> fst ` set todo"
    by (auto simp add: x)
  have v: "rooms (visit s k st) = (pre @ purge s [(k, r)]) @ todo"
    using visit_rooms_mid [OF _ kpre kpost] Cons.prems(1) by (simp add: x)
  have "fst ` set (purge s [(k, r)]) \<subseteq> {k}"
    using purge_keys [of s "[(k, r)]"] by simp
  then have d: "distinct (map fst (rooms (visit s k st)))"
    using Cons.prems kpre kpost unfolding v x
    by (cases "purge s [(k, r)]") (auto split: if_splits)
  show ?case
    using Cons.IH [OF v d] by (simp add: x purge_Cons [of s "(k, r)" todo] del: purge.simps)
qed

lemma on_disconnect_rooms:
  "distinct (map fst (rooms st)) \<Longrightarrow> rooms (on_disconnect s st) = purge s (rooms st)"
  using fold_visit_rooms [of st "[]" "rooms st" s] by (simp add: on_disconnect_def)

lemma purge_distinct: "distinct (map fst rs) \<Longrightarrow> distinct (map fst (purge s rs))"
proof (induction s rs rule: purge.induct)
  case (1 s)
  then show ?case by simp
next
  case (2 s k r rs)
  have "k \<notin> fst ` set (purge s rs)"
    using purge_keys [of s rs] "2.prems" by auto
  with 2 show ?case by auto
qed

lemma map_of_purge:
  "distinct (map fst rs) \<Longrightarrow>
   map_of (purge s rs) k =
     (case map_of rs k of
        None \<Rightarrow> None
      | Some r \<Rightarrow>
          if \<not> isDemo r \<and> hostId r = s then None
          else Some (r\<lparr>listeners := set_delete s (listeners r)\<rparr>))"
proof (induction s rs rule: purge.induct)
  case (1 s)
  then show ?case by simp
next
  case (2 s k' r rs)
  have "k' \<notin> fst ` set (purge s rs)"
    using purge_keys [of s rs] "2.prems" by auto
  then have n: "map_of (purge s rs) k' = None"
    by (simp add: map_of_eq_None_iff)
  from 2 n show ?case
    by (auto simp add: set_delete_def split: option.splits)
qed

lemma slice_last6_length: "length (slice_last6 s) \<le> 6"
  by (simp add: slice_last6_def)

lemma wf_init: "wf (init t)"
  by (auto simp add: wf_def rooms_ok_def sockets_ok_def room_ok_def init_def DEMO_ROOMS_def
      demo_room_def split: if_splits)

lemma wf_connect:
  assumes "wf st" and "s \<notin> sockets st" and "length s = 20"
  shows "wf (socket_open s st)"
proof -
  have "adapter st s \<subseteq> {s}"
    using assms by (simp add: wf_def sockets_ok_def)
  with assms show ?thesis
    unfolding wf_def rooms_ok_def sockets_ok_def room_ok_def socket_open_def socket_join_def
    by (auto split: if_splits) blast+
qed

lemma wf_cong:
  "rooms st' = rooms st \<Longrightarrow> adapter st' = adapter st \<Longrightarrow> sockets st' = sockets st \<Longrightarrow>
   wf st' = wf st"
  by (simp add: wf_def rooms_ok_def sockets_ok_def room_ok_def)

lemma wf_emit [simp]:
  "wf (io_to_emit ch m st) = wf st"
  "wf (socket_emit s m st) = wf st"
  "wf (socket_to_emit s ch m st) = wf st"
  "wf (broadcastLobbyUpdate st) = wf st"
  "wf (st\<lparr>clock := c\<rparr>) = wf st"
  by (rule wf_cong; simp add: io_to_emit_def socket_emit_def socket_to_emit_def
      broadcastLobbyUpdate_def)+

lemma wf_relay:
  "wf st \<Longrightarrow> relay e \<Longrightarrow> step e st = Inr st' \<Longrightarrow> wf st'"
  by (cases e)
    (auto simp add: on_webrtc_signal_def on_host_start_stream_def
      on_listener_request_connection_def on_check_stream_status_def on_stream_status_reply_def
      on_send_message_def split: option.splits if_splits)

lemma room_ok_cong:
  "adapter st' k = adapter st k \<Longrightarrow> room_ok st' k r = room_ok st k r"
  by (simp add: room_ok_def)

lemma sockets_ok_join:
  assumes "sockets_ok st" and "s \<in> sockets st" and "length ch \<noteq> 20"
    and "ch \<noteq> ''SYSTEM''"
    and "sockets st' = sockets st"
    and "adapter st' = (adapter st)(ch := insert s (adapter st ch))"
  shows "sockets_ok st'"
  using assms unfolding sockets_ok_def by auto

lemma sockets_ok_leave:
  assumes "sockets_ok st" and "length ch \<noteq> 20"
    and "sockets st' = sockets st"
    and "adapter st' = (adapter st)(ch := adapter st ch - {s})"
  shows "sockets_ok st'"
  using assms unfolding sockets_ok_def by auto

lemma rooms_ok_update:
  assumes "rooms_ok st"
    and "rooms st' = AList.update k r' (rooms st)"
    and "room_ok st' k r'"
    and "\<And>k'. k' \<noteq> k \<Longrightarrow> adapter st' k' = adapter st k'"
  shows "rooms_ok st'"
  unfolding rooms_ok_def
proof (intro conjI allI impI)
  show "distinct (map fst (rooms st'))"
    using assms(1,2) by (simp add: rooms_ok_def distinct_update)
next
  fix k' r
  assume m: "map_of (rooms st') k' = Some r"
  show "room_ok st' k' r"
  proof (cases "k' = k")
    case True
    with m assms(2,3) show ?thesis
      by (simp add: update_conv')
  next
    case False
    with m assms(2) have "map_of (rooms st) k' = Some r"
      by (simp add: update_conv')
    with assms(1) have "room_ok st k' r"
      by (simp add: rooms_ok_def)
    with assms(4) [OF False] show ?thesis
      by (simp add: room_ok_cong [of st' k' st])
  qed
qed

lemma rooms_ok_delete:
  assumes "rooms_ok st"
    and "rooms st' = AList.delete k (rooms st)"
    and "adapter st' = adapter st"
  shows "rooms_ok st'"
  unfolding rooms_ok_def
proof (intro conjI allI impI)
  show "distinct (map fst (rooms st'))"
    using assms(1,2) by (simp add: rooms_ok_def distinct_delete)
next
  fix k' r
  assume "map_of (rooms st') k' = Some r"
  then have "map_of (rooms st) k' = Some r"
    using assms(2) by (simp add: delete_conv' split: if_splits)
  with assms(1) have "room_ok st k' r"
    by (simp add: rooms_ok_def)
  then show "room_ok st' k' r"
    using assms(3) by (simp add: room_ok_cong [of st' k' st])
qed

lemma room_ok_mono:
  "room_ok st k r \<Longrightarrow> adapter st k \<subseteq> adapter st' k \<Longrightarrow> room_ok st' k r"
  by (auto simp add: room_ok_def)

lemma wf_join_lobby:
  assumes "wf st" and "s \<in> sockets st"
  shows "wf (on_join_lobby s st)"
proof -
  let ?st' = "socket_join s ''lobby'' st"
  have "sockets_ok ?st'"
    by (rule sockets_ok_join [of st s "''lobby''"])
      (use assms in \<open>auto simp add: wf_def socket_join_def\<close>)
  moreover have "room_ok ?st' k r" if "map_of (rooms st) k = Some r" for k r
  proof -
    from that assms(1) have "room_ok st k r"
      by (simp add: wf_def rooms_ok_def)
    then show ?thesis
      by (rule room_ok_mono) (auto simp add: socket_join_def)
  qed
  then have "rooms_ok ?st'"
    using assms(1) by (simp add: wf_def rooms_ok_def socket_join_def)
  ultimately have "wf ?st'"
    by (simp add: wf_def)
  then show ?thesis
    by (simp add: on_join_lobby_def Let_def)
qed

lemma on_create_room_fields:
  assumes "on_create_room s ps st = Inr st'"
  shows "rooms st' = AList.update (new_room_id (clock st))
           (new_room (new_room_id (clock st)) s (param ps 0) (clock st)) (rooms st)"
    and "adapter st' = (adapter st)(new_room_id (clock st) :=
           insert s (adapter st (new_room_id (clock st))))"
    and "sockets st' = sockets st" and "clock st' = clock st"
proof -
  have cb: "param ps (Suc 0) = Fn"
    using assms by (cases "param ps (Suc 0) = Fn") (simp_all add: on_create_room_def Let_def)
  have eq: "st' = broadcastLobbyUpdate (socket_emit s
      (CreateAck (new_room (new_room_id (clock st)) s (param ps 0) (clock st)))
      (socket_join s (new_room_id (clock st))
        (st\<lparr>rooms := AList.update (new_room_id (clock st))
           (new_room (new_room_id (clock st)) s (param ps 0) (clock st)) (rooms st)\<rparr>)))"
    using assms by (simp add: on_create_room_def Let_def cb)
  show "rooms st' = AList.update (new_room_id (clock st))
           (new_room (new_room_id (clock st)) s (param ps 0) (clock st)) (rooms st)"
    unfolding eq
    by (simp add: broadcastLobbyUpdate_def socket_emit_def io_to_emit_def socket_join_def)
  show "adapter st' = (adapter st)(new_room_id (clock st) :=
           insert s (adapter st (new_room_id (clock st))))"
    unfolding eq
    by (simp add: broadcastLobbyUpdate_def socket_emit_def io_to_emit_def socket_join_def)
  show "sockets st' = sockets st"
    unfolding eq
    by (simp add: broadcastLobbyUpdate_def socket_emit_def io_to_emit_def socket_join_def)
  show "clock st' = clock st"
    unfolding eq
    by (simp add: broadcastLobbyUpdate_def socket_emit_def io_to_emit_def socket_join_def)
qed

lemma rooms_get_Str [simp]:
  "rooms_get st (Str k) = (case map_of (rooms st) k of None \<Rightarrow> None | Some r \<Rightarrow> Some (k, r))"
  by (simp add: rooms_get_def)

lemma rooms_get_SomeD:
  "rooms_get st x = Some (k, r) \<Longrightarrow> x = Str k \<and> map_of (rooms st) k = Some r"
  by (cases x) (auto simp add: rooms_get_def split: option.splits)

lemma param_two [simp]: "param [a, b] 0 = a" "param [a, b] (Suc 0) = b"
  by (simp_all add: param_def)

lemma param_one [simp]: "param [a] 0 = a" "param [a] (Suc 0) = Undefined"
  by (simp_all add: param_def)

lemma param_none [simp]: "param [] i = Undefined"
  by (simp add: param_def)

lemma on_join_room_fields:
  assumes "on_join_room s ps st = Inr st'" and "rooms_get st (param ps 0) = Some (k, r)"
  shows "rooms st' = AList.update k (r\<lparr>listeners := set_add s (listeners r)\<rparr>) (rooms st)"
    and "adapter st' = (adapter st)(k := insert s (adapter st k))"
    and "sockets st' = sockets st" and "clock st' = clock st"
proof -
  have cb: "param ps (Suc 0) = Fn"
    using assms by (cases "param ps (Suc 0) = Fn") (simp_all add: on_join_room_def Let_def)
  have eq: "st' = broadcastLobbyUpdate (socket_emit s
      (JoinAck (JoinOk (snapshot_of (r\<lparr>listeners := set_add s (listeners r)\<rparr>))))
      (io_to_emit (hostId r) (UserJoined s)
        ((socket_join s k st)\<lparr>rooms := AList.update k (r\<lparr>listeners := set_add s (listeners r)\<rparr>)
            (rooms st)\<rparr>)))"
    using assms by (simp add: on_join_room_def Let_def cb socket_join_def)
  show "rooms st' = AList.update k (r\<lparr>listeners := set_add s (listeners r)\<rparr>) (rooms st)"
    unfolding eq by (simp add: broadcastLobbyUpdate_def socket_emit_def io_to_emit_def)
  show "adapter st' = (adapter st)(k := insert s (adapter st k))"
    unfolding eq by (simp add: broadcastLobbyUpdate_def socket_emit_def io_to_emit_def socket_join_def)
  show "sockets st' = sockets st"
    unfolding eq by (simp add: broadcastLobbyUpdate_def socket_emit_def io_to_emit_def socket_join_def)
  show "clock st' = clock st"
    unfolding eq by (simp add: broadcastLobbyUpdate_def socket_emit_def io_to_emit_def socket_join_def)
qed

lemma on_join_room_None:
  assumes "on_join_room s ps st = Inr st'" and "rooms_get st (param ps 0) = None"
  shows "st' = socket_emit s (JoinAck (JoinFailed ''Room not found or signal lost.'')) st"
  using assms by (cases "param ps (Suc 0) = Fn") (simp_all add: on_join_room_def Let_def)

lemma on_join_room_cases:
  assumes "on_join_room s ps st = Inr st'"
  obtains (NotFound) "rooms_get st (param ps 0) = None"
      "st' = socket_emit s (JoinAck (JoinFailed ''Room not found or signal lost.'')) st"
  | (Joined) k r where "rooms_get st (param ps 0) = Some (k, r)"
      "map_of (rooms st) k = Some r"
      "rooms st' = AList.update k (r\<lparr>listeners := set_add s (listeners r)\<rparr>) (rooms st)"
      "adapter st' = (adapter st)(k := insert s (adapter st k))"
      "sockets st' = sockets st"
proof (cases "rooms_get st (param ps 0)")
  case None
  with on_join_room_None [OF assms None] show ?thesis
    by (rule NotFound [rotated])
next
  case (Some kr)
  obtain k r where kr: "kr = (k, r)" by (cases kr)
  note g = Some [unfolded kr]
  show ?thesis
    using g rooms_get_SomeD [OF g, THEN conjunct2] on_join_room_fields(1,2,3) [OF assms g]
    by (rule Joined)
qed

lemma new_room_id_length: "length (new_room_id t) < 20"
  using slice_last6_length [of "toString t"] by (simp add: new_room_id_def)

lemma new_room_id_not_system: "new_room_id t \<noteq> ''SYSTEM''"
  by (simp add: new_room_id_def)

lemma wf_create_room:
  assumes "wf st" and "s \<in> sockets st" and "on_create_room s ps st = Inr st'"
  shows "wf st'"
proof -
  define k where "k = new_room_id (clock st)"
  define r where "r = new_room k s (param ps 0) (clock st)"
  have len: "length k < 20" "k \<noteq> ''SYSTEM''"
    by (simp_all add: k_def new_room_id_length new_room_id_not_system)
  have s20: "length s = 20"
    using assms(1,2) by (auto simp add: wf_def sockets_ok_def)
  then have sys: "s \<noteq> ''SYSTEM''"
    by auto
  have st': "rooms st' = AList.update k r (rooms st)"
      "adapter st' = (adapter st)(k := insert s (adapter st k))"
      "sockets st' = sockets st"
    using on_create_room_fields [OF assms(3)] by (simp_all add: k_def r_def)
  have ok: "room_ok st' k r"
    using st'(2) len sys by (simp add: room_ok_def r_def new_room_def)
  have "rooms_ok st'"
    by (rule rooms_ok_update [of st st' k r])
      (use assms(1) st'(1,2) ok in \<open>auto simp add: wf_def\<close>)
  moreover have "sockets_ok st'"
    by (rule sockets_ok_join [of st s k st'])
      (use assms(1,2) len st'(2,3) in \<open>auto simp add: wf_def\<close>)
  ultimately show ?thesis
    by (simp add: wf_def)
qed

lemma wf_join_room:
  assumes "wf st" and "s \<in> sockets st" and "on_join_room s ps st = Inr st'"
  shows "wf st'"
  using assms(3)
proof (cases rule: on_join_room_cases)
  case NotFound
  show ?thesis
    unfolding NotFound(2) using assms(1) by simp
next
  case (Joined k r)
  then have ok: "room_ok st k r"
    using assms(1) by (simp add: wf_def rooms_ok_def)
  then have len: "length k < 20" "k \<noteq> ''SYSTEM''"
    by (simp_all add: room_ok_def)
  define r' where "r' = r\<lparr>listeners := set_add s (listeners r)\<rparr>"
  have st': "rooms st' = AList.update k r' (rooms st)"
      "adapter st' = (adapter st)(k := insert s (adapter st k))"
      "sockets st' = sockets st"
    using Joined(3,4,5) by (simp_all add: r'_def)
  have ok': "room_ok st' k r'"
    using ok st'(2) by (auto simp add: room_ok_def r'_def set_add_def)
  have "rooms_ok st'"
    by (rule rooms_ok_update [of st st' k r'])
      (use assms(1) st'(1,2) ok' in \<open>auto simp add: wf_def\<close>)
  moreover have "sockets_ok st'"
    by (rule sockets_ok_join [of st s k st'])
      (use assms(1,2) len st'(2,3) in \<open>auto simp add: wf_def\<close>)
  ultimately show ?thesis
    by (simp add: wf_def)
qed

lemma wf_leave_room:
  assumes "wf st"
  shows "wf (handleLeaveRoom s k st)"
proof (cases "map_of (rooms st) k")
  case None
  with assms show ?thesis
    by (simp add: handleLeaveRoom_def)
next
  case (Some r)
  then have ok: "room_ok st k r"
    using assms(1) by (simp add: wf_def rooms_ok_def)
  then have len: "length k < 20"
    by (simp add: room_ok_def)
  let ?st' = "handleLeaveRoom s k st"
  show ?thesis
  proof (cases "isDemo r \<or> hostId r \<noteq> s")
    case True
    define r' where "r' = r\<lparr>listeners := set_delete s (listeners r)\<rparr>"
    have st': "rooms ?st' = AList.update k r' (rooms st)"
      "adapter ?st' = (adapter st)(k := adapter st k - {s})"
      using Some True by (auto simp add: hLR_rooms hLR_adapter r'_def)
    have ok': "room_ok ?st' k r'"
      using ok st'(2) True by (auto simp add: room_ok_def r'_def set_delete_def)
    have "rooms_ok ?st'"
      by (rule rooms_ok_update [of st ?st' k r'])
        (use assms(1) st'(1,2) ok' in \<open>auto simp add: wf_def\<close>)
    moreover have "sockets_ok ?st'"
      by (rule sockets_ok_leave [of st k ?st' s])
        (use assms(1) len st'(2) in \<open>auto simp add: wf_def\<close>)
    ultimately show ?thesis
      by (simp add: wf_def)
  next
    case False
    have st': "rooms ?st' = AList.delete k (rooms st)" "adapter ?st' = adapter st"
      using Some False by (auto simp add: hLR_rooms hLR_adapter)
    have "rooms_ok ?st'"
      by (rule rooms_ok_delete [of st ?st' k]) (use assms(1) st' in \<open>auto simp add: wf_def\<close>)
    moreover have "sockets_ok ?st'"
      using assms(1) st'(2) by (simp add: wf_def sockets_ok_def)
    ultimately show ?thesis
      by (simp add: wf_def)
  qed
qed

lemma on_disconnect_fields:
  assumes "distinct (map fst (rooms st))"
  shows "rooms (on_disconnect s (socket_close s st)) = purge s (rooms st)"
    and "adapter (on_disconnect s (socket_close s st)) = (\<lambda>ch. adapter st ch - {s})"
    and "sockets (on_disconnect s (socket_close s st)) = sockets st - {s}"
    and "clock (on_disconnect s (socket_close s st)) = clock st"
proof -
  show "rooms (on_disconnect s (socket_close s st)) = purge s (rooms st)"
    using on_disconnect_rooms [of "socket_close s st" s] assms by (simp add: socket_close_def)
  show "adapter (on_disconnect s (socket_close s st)) = (\<lambda>ch. adapter st ch - {s})"
    unfolding on_disconnect_def
    by (subst fold_visit_adapter) (simp_all add: socket_close_def)
  show "sockets (on_disconnect s (socket_close s st)) = sockets st - {s}"
    by (simp add: on_disconnect_def socket_close_def)
  show "clock (on_disconnect s (socket_close s st)) = clock st"
    by (simp add: on_disconnect_def socket_close_def)
qed

lemma wf_disconnect:
  assumes "wf st"
  shows "wf (on_disconnect s (socket_close s st))"
proof -
  let ?st' = "on_disconnect s (socket_close s st)"
  have d: "distinct (map fst (rooms st))"
    using assms by (simp add: wf_def rooms_ok_def)
  note f = on_disconnect_fields [OF d, of s]
  have "sockets_ok ?st'"
    using assms unfolding wf_def sockets_ok_def f by auto
  moreover have "room_ok ?st' k r'" if m: "map_of (rooms ?st') k = Some r'" for k r'
  proof -
    from m obtain r where r: "map_of (rooms st) k = Some r"
      "isDemo r \<or> hostId r \<noteq> s" "r' = r\<lparr>listeners := set_delete s (listeners r)\<rparr>"
      unfolding f(1) map_of_purge [OF d] by (auto split: option.splits if_splits)
    from r(1) assms have "room_ok st k r"
      by (simp add: wf_def rooms_ok_def)
    with r(2,3) show ?thesis
      unfolding room_ok_def f(2) by (auto simp add: set_delete_def)
  qed
  then have "rooms_ok ?st'"
    using d by (simp add: rooms_ok_def f(1) purge_distinct)
  ultimately show ?thesis
    by (simp add: wf_def)
qed

lemma wf_step:
  assumes "wf st" and "admissible e st" and "step e st = Inr st'"
  shows "wf st'"
proof (cases "relay e")
  case True
  with assms show ?thesis
    by (simp add: wf_relay)
next
  case False
  with assms show ?thesis
    by (cases e)
      (auto simp add: wf_connect wf_join_lobby wf_leave_room wf_disconnect
        intro: wf_create_room wf_join_room)
qed

lemma wf_run: "wf st \<Longrightarrow> run evs st = Some st' \<Longrightarrow> wf st'"
proof (induction evs arbitrary: st)
  case Nil
  then show ?case by simp
next
  case (Cons e evs)
  then show ?case
    by (auto split: if_splits sum.splits dest: wf_step)
qed

lemma wf_reachable: "run evs (init t) = Some st \<Longrightarrow> wf st"
  using wf_run [OF wf_init] .

lemma list_all_update:
  "list_all P al \<Longrightarrow> P (k, v) \<Longrightarrow> list_all P (AList.update k v al)"
  by (induction al) auto

lemma list_all_delete:
  "list_all P al \<Longrightarrow> list_all P (AList.delete k al)"
  by (induction al) auto

lemma list_all_map_of:
  "list_all P al \<Longrightarrow> map_of al k = Some v \<Longrightarrow> P (k, v)"
  by (auto simp add: list_all_iff dest: map_of_SomeD)

lemma host_free_cong:
  "rooms st' = rooms st \<Longrightarrow> host_free st' = host_free st"
  by (simp add: host_free_def)

lemma host_free_leave:
  assumes "host_free st"
  shows "host_free (handleLeaveRoom s k st)"
proof (cases "map_of (rooms st) k")
  case None
  with assms show ?thesis
    by (simp add: handleLeaveRoom_def)
next
  case (Some r)
  from assms Some have "hostId r \<notin> set (listeners r)"
    unfolding host_free_def by (auto dest: list_all_map_of)
  with assms Some show ?thesis
    unfolding host_free_def hLR_rooms
    by (auto simp add: set_delete_def intro!: list_all_update list_all_delete)
qed

lemma host_free_visit: "host_free st \<Longrightarrow> host_free (visit s k st)"
  by (simp add: visit_def host_free_leave split: option.splits)

lemma host_free_fold_visit: "host_free st \<Longrightarrow> host_free (fold (visit s) ks st)"
  by (induction ks arbitrary: st) (simp_all add: host_free_visit)

lemma host_free_disconnect:
  assumes "host_free st"
  shows "host_free (on_disconnect s (socket_close s st))"
proof -
  have "host_free (socket_close s st)"
    using assms by (simp add: host_free_def socket_close_def)
  then show ?thesis
    unfolding on_disconnect_def by (rule host_free_fold_visit)
qed

lemma host_free_create:
  assumes "host_free st" and "on_create_room s ps st = Inr st'"
  shows "host_free st'"
  using assms(1) unfolding host_free_def on_create_room_fields(1) [OF assms(2)]
  by (auto simp add: new_room_def intro!: list_all_update)

lemma host_free_join:
  assumes "host_free st" and "on_join_room s ps st = Inr st'"
    and "\<not> host_join (JoinRoom s ps) st"
  shows "host_free st'"
  using assms(2)
proof (cases rule: on_join_room_cases)
  case NotFound
  show ?thesis
    unfolding NotFound(2) using assms(1)
    by (simp add: host_free_def socket_emit_def)
next
  case (Joined k r)
  from assms(1) Joined(2) have "hostId r \<notin> set (listeners r)"
    unfolding host_free_def by (auto dest: list_all_map_of)
  moreover from assms(3) Joined(1) have "hostId r \<noteq> s"
    by simp
  ultimately show ?thesis
    using assms(1) unfolding host_free_def Joined(3)
    by (auto simp add: set_add_def intro!: list_all_update)
qed

lemma relay_rooms:
  "relay e \<Longrightarrow> step e st = Inr st' \<Longrightarrow> rooms st' = rooms st"
  by (cases e)
    (auto simp add: on_webrtc_signal_def on_host_start_stream_def
      on_listener_request_connection_def on_check_stream_status_def on_stream_status_reply_def
      on_send_message_def io_to_emit_def socket_to_emit_def split: option.splits if_splits)

lemma host_free_step:
  assumes "host_free st" and "\<not> host_join e st" and "step e st = Inr st'"
  shows "host_free st'"
proof (cases e)
  case (Connect s)
  with assms(1,3) show ?thesis
    by (auto simp add: host_free_def socket_open_def socket_join_def)
next
  case (Tick n)
  with assms(1,3) show ?thesis
    by (auto simp add: host_free_def)
next
  case (JoinLobby s)
  with assms(1,3) show ?thesis
    by (auto simp add: host_free_def on_join_lobby_def socket_join_def socket_emit_def Let_def)
next
  case (CreateRoom s ps)
  with assms(3) have "on_create_room s ps st = Inr st'"
    by simp
  with assms(1) show ?thesis
    by (rule host_free_create)
next
  case (JoinRoom s ps)
  with assms(2,3) have "on_join_room s ps st = Inr st'" "\<not> host_join (JoinRoom s ps) st"
    by simp_all
  with assms(1) show ?thesis
    by (rule host_free_join)
next
  case (LeaveRoom s k)
  with assms(1,3) show ?thesis
    by (auto simp add: host_free_leave)
next
  case (Disconnect s)
  with assms(1,3) show ?thesis
    by (auto simp add: host_free_disconnect)
next
  case (Signal s a)
  then have "relay e" by simp
  then have "rooms st' = rooms st" using assms(3) by (rule relay_rooms)
  with assms(1) show ?thesis by (simp add: host_free_def)
next
  case (HostStart s a)
  then have "relay e" by simp
  then have "rooms st' = rooms st" using assms(3) by (rule relay_rooms)
  with assms(1) show ?thesis by (simp add: host_free_def)
next
  case (ListenerRequest s a)
  then have "relay e" by simp
  then have "rooms st' = rooms st" using assms(3) by (rule relay_rooms)
  with assms(1) show ?thesis by (simp add: host_free_def)
next
  case (CheckStatus s a)
  then have "relay e" by simp
  then have "rooms st' = rooms st" using assms(3) by (rule relay_rooms)
  with assms(1) show ?thesis by (simp add: host_free_def)
next
  case (StatusReply s a)
  then have "relay e" by simp
  then have "rooms st' = rooms st" using assms(3) by (rule relay_rooms)
  with assms(1) show ?thesis by (simp add: host_free_def)
next
  case (SendMessage s a)
  then have "relay e" by simp
  then have "rooms st' = rooms st" using assms(3) by (rule relay_rooms)
  with assms(1) show ?thesis by (simp add: host_free_def)
qed

lemma host_free_init: "host_free (init t)"
  by (simp add: host_free_def init_def DEMO_ROOMS_def demo_room_def)

lemma host_free_run:
  "host_free st \<Longrightarrow> no_host_join evs st \<Longrightarrow> run evs st = Some st' \<Longrightarrow> host_free st'"
proof (induction evs arbitrary: st)
  case Nil
  then show ?case by simp
next
  case (Cons e evs)
  from Cons.prems(3) obtain st1 where st1: "step e st = Inr st1" "run evs st1 = Some st'"
    by (auto split: if_splits sum.splits)
  from Cons.prems(1,2) st1(1) have "host_free st1" "no_host_join evs st1"
    by (auto dest: host_free_step)
  then show ?case
    using st1(2) by (rule Cons.IH)
qed

lemma kept_cong: "rooms st' = rooms st \<Longrightarrow> kept k d st' = kept k d st"
  by (simp add: kept_def)

lemma kept_demo:
  "map_of (rooms st) k = Some r \<Longrightarrow> r\<lparr>listeners := []\<rparr> = d \<Longrightarrow> isDemo d \<Longrightarrow> isDemo r"
  by (cases r) auto

lemma kept_leave:
  assumes "kept k d st" and "isDemo d"
  shows "kept k d (handleLeaveRoom s k' st)"
proof -
  from assms obtain r where r: "map_of (rooms st) k = Some r" "r\<lparr>listeners := []\<rparr> = d"
    by (auto simp add: kept_def)
  then have demo: "isDemo r"
    using assms(2) by (rule kept_demo)
  show ?thesis
  proof (cases "k' = k")
    case True
    with r demo show ?thesis
      by (simp add: kept_def hLR_rooms update_conv')
  next
    case False
    with r show ?thesis
      by (auto simp add: kept_def hLR_rooms update_conv' delete_conv' split: option.splits)
  qed
qed

lemma kept_visit: "kept k d st \<Longrightarrow> isDemo d \<Longrightarrow> kept k d (visit s k' st)"
  by (simp add: visit_def kept_leave split: option.splits)

lemma kept_fold_visit: "kept k d st \<Longrightarrow> isDemo d \<Longrightarrow> kept k d (fold (visit s) ks st)"
  by (induction ks arbitrary: st) (simp_all add: kept_visit)

lemma kept_disconnect:
  assumes "kept k d st" and "isDemo d"
  shows "kept k d (on_disconnect s (socket_close s st))"
proof -
  have "kept k d (socket_close s st)"
    using assms(1) by (simp add: kept_def socket_close_def)
  then show ?thesis
    unfolding on_disconnect_def using assms(2) by (rule kept_fold_visit)
qed

lemma kept_create:
  assumes "kept k d st" and "\<And>t. new_room_id t \<noteq> k" and "on_create_room s ps st = Inr st'"
  shows "kept k d st'"
proof -
  have "k \<noteq> new_room_id (clock st)"
    using assms(2) [of "clock st"] by auto
  with assms(1) show ?thesis
    unfolding kept_def on_create_room_fields(1) [OF assms(3)] by (simp add: update_conv')
qed

lemma kept_join:
  assumes "kept k d st" and "on_join_room s ps st = Inr st'"
  shows "kept k d st'"
  using assms(2)
proof (cases rule: on_join_room_cases)
  case NotFound
  show ?thesis
    unfolding NotFound(2) using assms(1)
    by (simp add: kept_def socket_emit_def)
next
  case (Joined k' r)
  show ?thesis
    using assms(1) Joined(2) unfolding kept_def Joined(3)
    by (auto simp add: update_conv')
qed

lemma kept_step:
  assumes "kept k d st" and "isDemo d" and "\<And>t. new_room_id t \<noteq> k" and "step e st = Inr st'"
  shows "kept k d st'"
proof (cases "relay e")
  case True
  then have "rooms st' = rooms st" using assms(4) by (rule relay_rooms)
  with assms(1) show ?thesis by (simp add: kept_def)
next
  case False
  show ?thesis
  proof (cases e)
    case (Connect s)
    with assms(1,4) show ?thesis
      by (auto simp add: kept_def socket_open_def socket_join_def)
  next
    case (Tick n)
    with assms(1,4) show ?thesis
      by (auto simp add: kept_def)
  next
    case (JoinLobby s)
    with assms(1,4) show ?thesis
      by (auto simp add: kept_def on_join_lobby_def socket_join_def socket_emit_def Let_def)
  next
    case (CreateRoom s ps)
    with assms(4) have "on_create_room s ps st = Inr st'"
      by simp
    with assms(1,3) show ?thesis
      by (rule kept_create)
  next
    case (JoinRoom s ps)
    with assms(4) have "on_join_room s ps st = Inr st'"
      by simp
    with assms(1) show ?thesis
      by (rule kept_join)
  next
    case (LeaveRoom s k')
    with assms(1,2,4) show ?thesis
      by (auto simp add: kept_leave)
  next
    case (Disconnect s)
    with assms(1,2,4) show ?thesis
      by (auto simp add: kept_disconnect)
  qed (use False in simp_all)
qed

lemma kept_run:
  assumes "isDemo d" and "\<And>t. new_room_id t \<noteq> k"
  shows "kept k d st \<Longrightarrow> run evs st = Some st' \<Longrightarrow> kept k d st'"
proof (induction evs arbitrary: st)
  case Nil
  then show ?case by simp
next
  case (Cons e evs)
  from Cons.prems(2) obtain st1 where st1: "step e st = Inr st1" "run evs st1 = Some st'"
    by (auto split: if_splits sum.splits)
  from Cons.prems(1) assms st1(1) have "kept k d st1"
    by (rule kept_step)
  then show ?case
    using st1(2) by (rule Cons.IH)
qed

lemma demo_kept_iff: "demo_kept t st \<longleftrightarrow> (\<forall>d \<in> set (DEMO_ROOMS t). kept (room_id d) d st)"
  by (auto simp add: demo_kept_def kept_def list_all_iff split: option.splits)

lemma init_rooms:
  "rooms (init t) =
     [(''demo-nts-1'', DEMO_ROOMS t ! 0), (''demo-soma-groove'', DEMO_ROOMS t ! 1),
      (''demo-soma-defcon'', DEMO_ROOMS t ! 2), (''demo-lofi'', DEMO_ROOMS t ! 3)]"
  by (simp add: init_def DEMO_ROOMS_def demo_room_def)

lemma DEMO_ROOMS_cases:
  assumes "d \<in> set (DEMO_ROOMS t)"
  obtains i where "i < 4" and "d = DEMO_ROOMS t ! i"
proof -
  have "length (DEMO_ROOMS t) = 4"
    by (simp add: DEMO_ROOMS_def)
  with assms show ?thesis
    using that by (metis in_set_conv_nth)
qed

lemma DEMO_ROOMS_nth:
  assumes "i < 4"
  shows "isDemo (DEMO_ROOMS t ! i)"
    and "new_room_id t' \<noteq> room_id (DEMO_ROOMS t ! i)"
    and "kept (room_id (DEMO_ROOMS t ! i)) (DEMO_ROOMS t ! i) (init t)"
proof -
  from assms have i: "i = 0 \<or> i = 1 \<or> i = 2 \<or> i = 3"
    by auto
  then show "isDemo (DEMO_ROOMS t ! i)"
    by (auto simp add: DEMO_ROOMS_def demo_room_def)
  from i show "new_room_id t' \<noteq> room_id (DEMO_ROOMS t ! i)"
    by (auto simp add: DEMO_ROOMS_def demo_room_def new_room_id_def)
  have l: "listeners (DEMO_ROOMS t ! i) = []"
    using i by (auto simp add: DEMO_ROOMS_def demo_room_def)
  have "map_of (rooms (init t)) (room_id (DEMO_ROOMS t ! i)) = Some (DEMO_ROOMS t ! i)"
    unfolding init_rooms using i by (auto simp add: DEMO_ROOMS_def demo_room_def)
  then show "kept (room_id (DEMO_ROOMS t ! i)) (DEMO_ROOMS t ! i) (init t)"
    unfolding kept_def using l by (cases "DEMO_ROOMS t ! i") auto
qed

lemma DEMO_ROOMS_props:
  assumes "d \<in> set (DEMO_ROOMS t)"
  shows "isDemo d" and "new_room_id t' \<noteq> room_id d" and "kept (room_id d) d (init t)"
proof -
  from assms obtain i where i: "i < 4" "d = DEMO_ROOMS t ! i"
    by (rule DEMO_ROOMS_cases)
  show "isDemo d"
    unfolding i(2) using i(1) by (rule DEMO_ROOMS_nth)
  show "new_room_id t' \<noteq> room_id d"
    unfolding i(2) using i(1) by (rule DEMO_ROOMS_nth)
  show "kept (room_id d) d (init t)"
    unfolding i(2) using i(1) by (rule DEMO_ROOMS_nth)
qed

section \<open>The disconnect scan and what it sends\<close>

lemma visit_noop: "in_no_room s st \<Longrightarrow> visit s k st = st"
  unfolding in_no_room_def visit_def
  by (auto split: option.splits dest: list_all_map_of)

lemma fold_visit_noop: "in_no_room s st \<Longrightarrow> fold (visit s) ks st = st"
  by (induction ks) (simp_all add: visit_noop)

lemma purge_in_no_room:
  "list_all (\<lambda>kr. isDemo (snd kr) \<longrightarrow> hostId (snd kr) \<noteq> s) rs \<Longrightarrow>
   list_all (\<lambda>kr. hostId (snd kr) \<noteq> s \<and> s \<notin> set (listeners (snd kr))) (purge s rs)"
  by (induction s rs rule: purge.induct) (auto simp add: set_delete_def)

lemma run_append:
  "run (xs @ ys) st = (case run xs st of None \<Rightarrow> None | Some st' \<Rightarrow> run ys st')"
  by (induction xs arbitrary: st) (auto split: sum.splits)

lemma run_snoc:
  assumes "run (evs @ [e]) st = Some st'"
  obtains st1 where "run evs st = Some st1" and "admissible e st1" and "step e st1 = Inr st'"
  using assms unfolding run_append
  by (auto split: option.splits if_splits sum.splits)

lemma wf_demo_host:
  assumes "wf st" and "s \<in> sockets st"
  shows "list_all (\<lambda>kr. isDemo (snd kr) \<longrightarrow> hostId (snd kr) \<noteq> s) (rooms st)"
proof -
  have s: "length s = 20"
    using assms by (auto simp add: wf_def sockets_ok_def)
  have "hostId r \<noteq> s" if "(k, r) \<in> set (rooms st)" "isDemo r" for k r
  proof -
    from that(1) assms(1) have "map_of (rooms st) k = Some r"
      by (simp add: wf_def rooms_ok_def)
    with assms(1) have "room_ok st k r"
      by (simp add: wf_def rooms_ok_def)
    with that(2) have "hostId r = ''SYSTEM''"
      by (simp add: room_ok_def)
    with s show ?thesis
      by auto
  qed
  then show ?thesis
    unfolding list_all_iff by fastforce
qed

lemma hLR_outbox:
  "\<exists>ch rl. outbox (handleLeaveRoom s k st) = outbox st @
     (case map_of (rooms st) k of
        None \<Rightarrow> []
      | Some r \<Rightarrow>
          if isDemo r \<or> hostId r \<noteq> s
          then [Emit k (adapter st k - {s}) (UserLeft s), Emit ''lobby'' ch (RoomList rl)]
          else [Emit k (adapter st k) (NewMessage (sys_destroy (clock st))),
                Emit ''lobby'' (adapter st ''lobby'') (RoomList rl)])"
  by (simp add: handleLeaveRoom_def Let_def broadcastLobbyUpdate_def io_to_emit_def
      socket_leave_def split: option.splits)

lemma visit_outbox:
  "\<exists>ch rl. outbox (visit s k st) = outbox st @
     (case map_of (rooms st) k of
        None \<Rightarrow> []
      | Some r \<Rightarrow>
          if hostId r = s \<or> s \<in> set (listeners r)
          then (if isDemo r \<or> hostId r \<noteq> s
                then [Emit k (adapter st k - {s}) (UserLeft s), Emit ''lobby'' ch (RoomList rl)]
                else [Emit k (adapter st k) (NewMessage (sys_destroy (clock st))),
                      Emit ''lobby'' (adapter st ''lobby'') (RoomList rl)])
          else [])"
proof (cases "map_of (rooms st) k")
  case None
  then show ?thesis by (simp add: visit_def)
next
  case (Some r)
  show ?thesis
  proof (cases "hostId r = s \<or> s \<in> set (listeners r)")
    case True
    with Some hLR_outbox [of s k st] show ?thesis
      by (auto simp add: visit_def)
  next
    case False
    with Some show ?thesis by (simp add: visit_def)
  qed
qed

lemma visit_received:
  "filter (notice_for z) (outbox (visit s k' st)) =
     filter (notice_for z) (outbox st) @
     (case map_of (rooms st) k' of
        None \<Rightarrow> []
      | Some r \<Rightarrow>
          if \<not> isDemo r \<and> hostId r = s \<and> z \<in> adapter st k'
          then [Emit k' (adapter st k') (NewMessage (sys_destroy (clock st)))] else [])"
proof -
  obtain ch rl where o: "outbox (visit s k' st) = outbox st @
     (case map_of (rooms st) k' of
        None \<Rightarrow> []
      | Some r \<Rightarrow>
          if hostId r = s \<or> s \<in> set (listeners r)
          then (if isDemo r \<or> hostId r \<noteq> s
                then [Emit k' (adapter st k' - {s}) (UserLeft s), Emit ''lobby'' ch (RoomList rl)]
                else [Emit k' (adapter st k') (NewMessage (sys_destroy (clock st))),
                      Emit ''lobby'' (adapter st ''lobby'') (RoomList rl)])
          else [])"
    using visit_outbox [of s k' st] by blast
  show ?thesis
  proof (cases "map_of (rooms st) k'")
    case None
    with o show ?thesis by simp
  next
    case (Some r)
    with o show ?thesis
      by (simp add: sys_destroy_def)
  qed
qed

lemma visit_prefix: "\<exists>xs. outbox (visit s k st) = outbox st @ xs"
  using visit_outbox [of s k st] by blast

lemma fold_visit_prefix: "\<exists>xs. outbox (fold (visit s) ks st) = outbox st @ xs"
proof (induction ks arbitrary: st)
  case Nil
  then show ?case by simp
next
  case (Cons k ks)
  obtain xs where "outbox (visit s k st) = outbox st @ xs"
    using visit_prefix by blast
  moreover obtain ys where
    "outbox (fold (visit s) ks (visit s k st)) = outbox (visit s k st) @ ys"
    using Cons.IH by blast
  ultimately show ?case by simp
qed

lemma fold_visit_received:
  assumes "rooms st = pre @ todo" and "distinct (map fst (rooms st))"
    and "\<forall>ch. s \<notin> adapter st ch"
  shows "filter (notice_for z) (outbox (fold (visit s) (map fst todo) st)) =
     filter (notice_for z) (outbox st) @
     map (\<lambda>kr. Emit (fst kr) (adapter st (fst kr)) (NewMessage (sys_destroy (clock st))))
       (filter (\<lambda>kr. z \<in> adapter st (fst kr))
         (filter (\<lambda>kr. \<not> isDemo (snd kr) \<and> hostId (snd kr) = s) todo))"
  using assms
proof (induction todo arbitrary: pre st)
  case Nil
  then show ?case by simp
next
  case (Cons x todo)
  obtain k' r' where x: "x = (k', r')" by (cases x)
  from Cons.prems have kpre: "k' \<notin> fst ` set pre" and kpost: "k' \<notin> fst ` set todo"
    by (auto simp add: x)
  have m: "map_of (rooms st) k' = Some r'"
    unfolding Cons.prems(1) x using kpre by (rule map_of_mid)
  let ?st1 = "visit s k' st"
  have v: "rooms ?st1 = (pre @ purge s [(k', r')]) @ todo"
    using visit_rooms_mid [OF _ kpre kpost] Cons.prems(1) by (simp add: x)
  have "fst ` set (purge s [(k', r')]) \<subseteq> {k'}"
    using purge_keys [of s "[(k', r')]"] by simp
  then have d: "distinct (map fst (rooms ?st1))"
    using Cons.prems(1,2) kpre kpost unfolding v x
    by (cases "purge s [(k', r')]") (auto split: if_splits)
  have a: "adapter ?st1 = adapter st"
    using Cons.prems(3) by (simp add: visit_adapter)
  then have a': "\<forall>ch. s \<notin> adapter ?st1 ch"
    using Cons.prems(3) by simp
  have "filter (notice_for z) (outbox (fold (visit s) (map fst todo) ?st1)) =
     filter (notice_for z) (outbox ?st1) @
     map (\<lambda>kr. Emit (fst kr) (adapter ?st1 (fst kr)) (NewMessage (sys_destroy (clock ?st1))))
       (filter (\<lambda>kr. z \<in> adapter ?st1 (fst kr))
         (filter (\<lambda>kr. \<not> isDemo (snd kr) \<and> hostId (snd kr) = s) todo))"
    using v d a' by (rule Cons.IH)
  then have ih: "filter (notice_for z) (outbox (fold (visit s) (map fst todo) ?st1)) =
     filter (notice_for z) (outbox ?st1) @
     map (\<lambda>kr. Emit (fst kr) (adapter st (fst kr)) (NewMessage (sys_destroy (clock st))))
       (filter (\<lambda>kr. z \<in> adapter st (fst kr))
         (filter (\<lambda>kr. \<not> isDemo (snd kr) \<and> hostId (snd kr) = s) todo))"
    unfolding a visit_clock .
  show ?case
    using ih unfolding visit_received [of z s k' st] m by (simp add: x)
qed

lemma leave_received:
  assumes "map_of (rooms st) k = Some r" and "\<not> isDemo r"
  shows "received z st (handleLeaveRoom (hostId r) k st) =
     (if z \<in> adapter st k
      then [Emit k (adapter st k) (NewMessage (sys_destroy (clock st)))] else [])"
  using hLR_outbox [of "hostId r" k st] assms
  by (auto simp add: received_def sys_destroy_def)

lemma disconnect_received:
  assumes "distinct (map fst (rooms st))"
  shows "received z st (on_disconnect h (socket_close h st)) =
     map (\<lambda>kr. Emit (fst kr) (adapter st (fst kr) - {h}) (NewMessage (sys_destroy (clock st))))
       (filter (\<lambda>kr. z \<in> adapter st (fst kr) - {h}) (hosted h st))"
proof -
  let ?c = "socket_close h st"
  let ?d = "on_disconnect h ?c"
  have c: "rooms ?c = [] @ rooms st" "distinct (map fst (rooms ?c))" "\<forall>ch. h \<notin> adapter ?c ch"
    using assms by (simp_all add: socket_close_def)
  have c': "adapter ?c = (\<lambda>ch. adapter st ch - {h})" "clock ?c = clock st" "outbox ?c = outbox st"
    "rooms ?c = rooms st"
    by (simp_all add: socket_close_def)
  have fl: "filter (notice_for z) (outbox ?d) = filter (notice_for z) (outbox st) @
     map (\<lambda>kr. Emit (fst kr) (adapter st (fst kr) - {h}) (NewMessage (sys_destroy (clock st))))
       (filter (\<lambda>kr. z \<in> adapter st (fst kr) - {h}) (hosted h st))"
    using fold_visit_received [OF c(1,2,3), of z]
    unfolding on_disconnect_def c' hosted_def .
  obtain xs where xs: "outbox ?d = outbox st @ xs"
    using fold_visit_prefix [of h "map fst (rooms ?c)" ?c]
    unfolding on_disconnect_def c'(3) by blast
  show ?thesis
    using fl unfolding received_def xs by simp
qed

lemma gone_wf:
  assumes "wf st" and "map_of (rooms st) k = None"
  shows "gone k st"
proof -
  have "snap_id (snapshot_of r') \<noteq> k" if "(k', r') \<in> set (rooms st)" for k' r'
  proof -
    from that assms(1) have m: "map_of (rooms st) k' = Some r'"
      by (simp add: wf_def rooms_ok_def)
    with assms(1) have "room_ok st k' r'"
      by (simp add: wf_def rooms_ok_def)
    moreover from m assms(2) have "k' \<noteq> k"
      by auto
    ultimately show ?thesis
      by (simp add: room_ok_def snapshot_of_def)
  qed
  then have "k \<notin> set (map snap_id (list_rooms st))"
    by (fastforce simp add: list_rooms_def)
  with assms(2) show ?thesis
    by (simp add: gone_def on_join_room_def)
qed

lemma absent_leave:
  "map_of (rooms st) k = None \<Longrightarrow> map_of (rooms (handleLeaveRoom s k' st)) k = None"
  by (auto simp add: hLR_rooms update_conv' delete_conv' split: option.splits)

lemma absent_visit:
  "map_of (rooms st) k = None \<Longrightarrow> map_of (rooms (visit s k' st)) k = None"
  by (simp add: visit_def absent_leave split: option.splits)

lemma absent_fold_visit:
  "map_of (rooms st) k = None \<Longrightarrow> map_of (rooms (fold (visit s) ks st)) k = None"
  by (induction ks arbitrary: st) (simp_all add: absent_visit)

lemma absent_step:
  assumes "map_of (rooms st) k = None" and "\<not> allocates k e st" and "step e st = Inr st'"
  shows "map_of (rooms st') k = None"
proof (cases "relay e")
  case True
  then have "rooms st' = rooms st" using assms(3) by (rule relay_rooms)
  with assms(1) show ?thesis by simp
next
  case False
  show ?thesis
  proof (cases e)
    case (Connect s)
    with assms(1,3) show ?thesis
      by (auto simp add: socket_open_def socket_join_def)
  next
    case (Tick n)
    with assms(1,3) show ?thesis
      by auto
  next
    case (JoinLobby s)
    with assms(1,3) show ?thesis
      by (auto simp add: on_join_lobby_def socket_join_def socket_emit_def Let_def)
  next
    case (CreateRoom s ps)
    with assms(3) have c: "on_create_room s ps st = Inr st'"
      by simp
    from CreateRoom assms(2) have "new_room_id (clock st) \<noteq> k"
      by simp
    with assms(1) show ?thesis
      unfolding on_create_room_fields(1) [OF c] by (simp add: update_conv')
  next
    case (JoinRoom s ps)
    with assms(3) have j: "on_join_room s ps st = Inr st'"
      by simp
    from j show ?thesis
    proof (cases rule: on_join_room_cases)
      case NotFound
      show ?thesis
        unfolding NotFound(2) using assms(1) by (simp add: socket_emit_def)
    next
      case (Joined k' r)
      with assms(1) show ?thesis
        unfolding Joined(3) by (auto simp add: update_conv')
    qed
  next
    case (LeaveRoom s k')
    with assms(1,3) show ?thesis
      by (auto simp add: absent_leave)
  next
    case (Disconnect s)
    have "map_of (rooms (socket_close s st)) k = None"
      using assms(1) by (simp add: socket_close_def)
    then have "map_of (rooms (on_disconnect s (socket_close s st))) k = None"
      unfolding on_disconnect_def by (rule absent_fold_visit)
    with Disconnect assms(3) show ?thesis
      by auto
  qed (use False in simp_all)
qed

lemma absent_run:
  "map_of (rooms st) k = None \<Longrightarrow> \<not> recreated k es st \<Longrightarrow> run es st = Some st' \<Longrightarrow>
   map_of (rooms st') k = None"
proof (induction es arbitrary: st)
  case Nil
  then show ?case by simp
next
  case (Cons e es)
  from Cons.prems(3) obtain st1 where st1: "step e st = Inr st1" "run es st1 = Some st'"
    by (auto split: if_splits sum.splits)
  from Cons.prems(2) st1(1) have n: "\<not> allocates k e st" "\<not> recreated k es st1"
    by auto
  from Cons.prems(1) n(1) st1(1) have "map_of (rooms st1) k = None"
    by (rule absent_step)
  then show ?case
    using n(2) st1(2) by (rule Cons.IH)
qed

lemma gone_run:
  assumes "wf st" and "map_of (rooms st) k = None" and "\<not> recreated k es st"
    and "run es st = Some st'"
  shows "gone k st'"
proof (rule gone_wf)
  show "wf st'" using assms(1,4) by (rule wf_run)
  show "map_of (rooms st') k = None" using assms(2,3,4) by (rule absent_run)
qed

lemma stays_gone_wf: "wf st \<Longrightarrow> map_of (rooms st) k = None \<Longrightarrow> stays_gone k st"
  unfolding stays_gone_def using gone_run by blast

section \<open>Host and listeners\<close>

text \<open>
  C1, as the claim states it, fails: the \<open>join-room\<close> handler does not look at who asks,
  and a host that joins the room it hosts becomes one of its listeners.
\<close>

theorem host_joins_own_room_counterexample:
  "map_of (store [Connect sock_h, CreateRoom sock_h [Str ''Test'', Fn],
       JoinRoom sock_h [Str ''room-0'', Fn]] (init 0)) ''room-0'' =
     Some \<lparr>room_id = ''room-0'', name = Str ''Test'', streamUrl = None, hostId = sock_h,
           listeners = [sock_h], createdAt = 0, status = ''active'', isDemo = False\<rparr> \<and>
   map_option host_free (run [Connect sock_h, CreateRoom sock_h [Str ''Test'', Fn],
       JoinRoom sock_h [Str ''room-0'', Fn]] (init 0)) = Some False"
  by (simp add: ev_defs host_free_def)

text \<open>
  C1, amended. After any trace from start-up in which no socket sends \<open>join-room\<close> for a
  room it hosts, no room has its host among its listeners.
\<close>

theorem listeners_exclude_host:
  "no_host_join evs (init t) \<Longrightarrow> run evs (init t) = Some st \<Longrightarrow> host_free st"
  using host_free_run [OF host_free_init] .

theorem listeners_exclude_host_witness:
  "no_host_join (scenario @ [LeaveRoom sock_l ''room-0'', Disconnect sock_h]) (init 0) \<and>
   run (scenario @ [LeaveRoom sock_l ''room-0'', Disconnect sock_h]) (init 0) \<noteq> None \<and>
   host_free (the (run (scenario @ [LeaveRoom sock_l ''room-0'', Disconnect sock_h]) (init 0)))"
proof -
  let ?evs = "scenario @ [LeaveRoom sock_l ''room-0'', Disconnect sock_h]"
  have n: "no_host_join ?evs (init 0)"
    by (simp add: ev_defs)
  have r: "run ?evs (init 0) \<noteq> None"
    by (simp add: ev_defs)
  then have "run ?evs (init 0) = Some (the (run ?evs (init 0)))"
    by simp
  with n have "host_free (the (run ?evs (init 0)))"
    by (rule listeners_exclude_host)
  with n r show ?thesis
    by simp
qed

section \<open>Demo rooms\<close>

text \<open>
  C5. After any trace from start-up (joins, leaves and disconnects, and every other event
  too), each demo room of the start-up list is still in the store under its identifier,
  with its host \<open>SYSTEM\<close> and every other field but the listeners as at start-up.
\<close>

theorem demo_rooms_survive:
  "run evs (init t) = Some st \<Longrightarrow> demo_kept t st"
  unfolding demo_kept_iff
proof
  fix d
  assume d: "d \<in> set (DEMO_ROOMS t)"
  assume r: "run evs (init t) = Some st"
  show "kept (room_id d) d st"
    using DEMO_ROOMS_props(1) [OF d] DEMO_ROOMS_props(2) [OF d] DEMO_ROOMS_props(3) [OF d] r
    by (rule kept_run)
qed

theorem demo_rooms_survive_witness:
  "run [Connect sock_l, JoinRoom sock_l [Str ''demo-lofi'', Fn], Connect sock_h,
        JoinRoom sock_h [Str ''demo-lofi'', Fn], LeaveRoom sock_h ''demo-lofi'',
        Disconnect sock_l] (init 0) \<noteq> None \<and>
   demo_kept 0 (the (run [Connect sock_l, JoinRoom sock_l [Str ''demo-lofi'', Fn], Connect sock_h,
        JoinRoom sock_h [Str ''demo-lofi'', Fn], LeaveRoom sock_h ''demo-lofi'',
        Disconnect sock_l] (init 0)))"
proof -
  let ?evs = "[Connect sock_l, JoinRoom sock_l [Str ''demo-lofi'', Fn], Connect sock_h,
        JoinRoom sock_h [Str ''demo-lofi'', Fn], LeaveRoom sock_h ''demo-lofi'', Disconnect sock_l]"
  have r: "run ?evs (init 0) \<noteq> None"
    by (simp add: ev_defs)
  then have "run ?evs (init 0) = Some (the (run ?evs (init 0)))"
    by simp
  then have "demo_kept 0 (the (run ?evs (init 0)))"
    by (rule demo_rooms_survive)
  with r show ?thesis
    by simp
qed

section \<open>Host departure\<close>

text \<open>
  C3, as the claim states it, fails twice. A socket that hosts \<open>room-0\<close> and \<open>room-1\<close>
  disconnects: their common listener is sent two system notices. And a room created after
  \<open>room-0\<close> was destroyed, in the same millisecond, is \<open>room-0\<close> again: a join on that
  identifier succeeds.
\<close>

theorem host_departure_counterexample:
  "map_of (store [Connect sock_h, Connect sock_l, CreateRoom sock_h [Str ''A'', Fn], Tick 1,
       CreateRoom sock_h [Str ''B'', Fn], JoinRoom sock_l [Str ''room-0'', Fn],
       JoinRoom sock_l [Str ''room-1'', Fn]] (init 0)) ''room-0'' =
     Some \<lparr>room_id = ''room-0'', name = Str ''A'', streamUrl = None, hostId = sock_h,
           listeners = [sock_l], createdAt = 0, status = ''active'', isDemo = False\<rparr> \<and>
   filter (notice_for sock_l)
     (sent [Connect sock_h, Connect sock_l, CreateRoom sock_h [Str ''A'', Fn], Tick 1,
       CreateRoom sock_h [Str ''B'', Fn], JoinRoom sock_l [Str ''room-0'', Fn],
       JoinRoom sock_l [Str ''room-1'', Fn], Disconnect sock_h] (init 0)) =
     [Emit ''room-0'' {sock_l} (NewMessage (sys_destroy 1)),
      Emit ''room-1'' {sock_l} (NewMessage (sys_destroy 1))] \<and>
   map_of (store [Connect sock_h, Connect sock_l, CreateRoom sock_h [Str ''A'', Fn],
       LeaveRoom sock_h ''room-0''] (init 0)) ''room-0'' = None \<and>
   map_of (store [Connect sock_h, Connect sock_l, CreateRoom sock_h [Str ''A'', Fn],
       LeaveRoom sock_h ''room-0'', CreateRoom sock_l [Str ''B'', Fn],
       JoinRoom sock_h [Str ''room-0'', Fn]] (init 0)) ''room-0'' =
     Some \<lparr>room_id = ''room-0'', name = Str ''B'', streamUrl = None, hostId = sock_l,
           listeners = [sock_h], createdAt = 0, status = ''active'', isDemo = False\<rparr>"
  by (simp add: ev_defs insert_Diff_if)

text \<open>
  C3, amended. In a state reached from start-up, let \<open>r\<close> be a user room stored under \<open>k\<close>.
  When its host leaves it, every socket in the socket.io room \<open>k\<close>, so the host and every
  listener, receives exactly one system notice (system flag, sender \<open>SYSTEM\<close>), and
  nobody else receives any. When its host disconnects, every socket receives one system
  notice for each user room of that host whose socket.io room it is in: every listener of
  \<open>r\<close> receives the one for \<open>k\<close>, and exactly one in all when \<open>r\<close> is the only room the
  host hosts. Either way the room is out of the store: the room list does not name \<open>k\<close>
  and a join on \<open>k\<close> answers the failure acknowledgment, for as long as no room is created
  under \<open>k\<close> again.
\<close>

theorem host_departure:
  assumes "run evs (init t) = Some st" and "map_of (rooms st) k = Some r" and "\<not> isDemo r"
  shows "(\<forall>z. received z st (handleLeaveRoom (hostId r) k st) =
            (if z \<in> adapter st k
             then [Emit k (adapter st k) (NewMessage (sys_destroy (clock st)))] else [])) \<and>
         insert (hostId r) (set (listeners r)) \<subseteq> adapter st k \<and>
         stays_gone k (handleLeaveRoom (hostId r) k st) \<and>
         (\<forall>z. received z st (on_disconnect (hostId r) (socket_close (hostId r) st)) =
            map (\<lambda>kr. Emit (fst kr) (adapter st (fst kr) - {hostId r})
                        (NewMessage (sys_destroy (clock st))))
              (filter (\<lambda>kr. z \<in> adapter st (fst kr) - {hostId r}) (hosted (hostId r) st))) \<and>
         (k, r) \<in> set (hosted (hostId r) st) \<and>
         set (listeners r) - {hostId r} \<subseteq> adapter st k - {hostId r} \<and>
         (hosted (hostId r) st = [(k, r)] \<longrightarrow>
            (\<forall>z. received z st (on_disconnect (hostId r) (socket_close (hostId r) st)) =
               (if z \<in> adapter st k - {hostId r}
                then [Emit k (adapter st k - {hostId r}) (NewMessage (sys_destroy (clock st)))]
                else []))) \<and>
         stays_gone k (on_disconnect (hostId r) (socket_close (hostId r) st))"
proof -
  let ?h = "hostId r"
  from assms(1) have wf: "wf st"
    by (rule wf_reachable)
  then have d: "distinct (map fst (rooms st))"
    by (simp add: wf_def rooms_ok_def)
  from wf assms(2) have ok: "room_ok st k r"
    by (simp add: wf_def rooms_ok_def)
  with assms(3) have mem: "insert ?h (set (listeners r)) \<subseteq> adapter st k"
    by (simp add: room_ok_def)
  from assms(2) have "(k, r) \<in> set (rooms st)"
    by (rule map_of_SomeD)
  with assms(3) have hosted: "(k, r) \<in> set (hosted ?h st)"
    by (simp add: hosted_def)
  let ?l = "handleLeaveRoom ?h k st"
  let ?d = "on_disconnect ?h (socket_close ?h st)"
  have l: "\<forall>z. received z st ?l =
      (if z \<in> adapter st k
       then [Emit k (adapter st k) (NewMessage (sys_destroy (clock st)))] else [])"
    using leave_received [OF assms(2,3)] by blast
  have gl: "stays_gone k ?l"
  proof (rule stays_gone_wf)
    show "wf ?l" using wf by (rule wf_leave_room)
    show "map_of (rooms ?l) k = None"
      using assms(2,3) by (simp add: hLR_rooms delete_conv')
  qed
  note f = on_disconnect_fields [OF d, of ?h]
  have dr: "\<forall>z. received z st ?d =
      map (\<lambda>kr. Emit (fst kr) (adapter st (fst kr) - {?h}) (NewMessage (sys_destroy (clock st))))
        (filter (\<lambda>kr. z \<in> adapter st (fst kr) - {?h}) (hosted ?h st))"
    using disconnect_received [OF d, of _ ?h] by blast
  then have one: "hosted ?h st = [(k, r)] \<longrightarrow>
      (\<forall>z. received z st ?d =
         (if z \<in> adapter st k - {?h}
          then [Emit k (adapter st k - {?h}) (NewMessage (sys_destroy (clock st)))] else []))"
    by simp
  have gd: "stays_gone k ?d"
  proof (rule stays_gone_wf)
    show "wf ?d" using wf by (rule wf_disconnect)
    show "map_of (rooms ?d) k = None"
      unfolding f(1) map_of_purge [OF d] using assms(2,3) by simp
  qed
  from mem have mem': "set (listeners r) - {?h} \<subseteq> adapter st k - {?h}"
    by auto
  show ?thesis
    using l mem gl dr hosted mem' one gd by (intro conjI)
qed

theorem host_departure_witness:
  "run scenario (init 0) \<noteq> None \<and>
   map_of (rooms (the (run scenario (init 0)))) ''room-0'' =
     Some \<lparr>room_id = ''room-0'', name = Str ''Test'', streamUrl = None, hostId = sock_h,
           listeners = [sock_l], createdAt = 0, status = ''active'', isDemo = False\<rparr> \<and>
   received sock_l (the (run scenario (init 0)))
       (handleLeaveRoom sock_h ''room-0'' (the (run scenario (init 0)))) =
     [Emit ''room-0'' {sock_h, sock_l} (NewMessage (sys_destroy 0))] \<and>
   received sock_l (the (run scenario (init 0)))
       (on_disconnect sock_h (socket_close sock_h (the (run scenario (init 0))))) =
     [Emit ''room-0'' {sock_l} (NewMessage (sys_destroy 0))] \<and>
   stays_gone ''room-0'' (handleLeaveRoom sock_h ''room-0'' (the (run scenario (init 0)))) \<and>
   stays_gone ''room-0''
     (on_disconnect sock_h (socket_close sock_h (the (run scenario (init 0)))))"
proof -
  define S where "S = the (run scenario (init 0))"
  let ?r = "\<lparr>room_id = ''room-0'', name = Str ''Test'', streamUrl = None, hostId = sock_h,
           listeners = [sock_l], createdAt = 0, status = ''active'', isDemo = False\<rparr>"
  have r: "run scenario (init 0) \<noteq> None"
    by (simp add: ev_defs)
  then have h1: "run scenario (init 0) = Some S"
    unfolding S_def by simp
  have h2: "map_of (rooms S) ''room-0'' = Some ?r"
    unfolding S_def by (simp add: ev_defs)
  have h3: "\<not> isDemo ?r"
    by simp
  have a: "adapter S ''room-0'' = {sock_h, sock_l}" "clock S = 0"
    unfolding S_def by (simp_all add: ev_defs insert_commute)
  have ho: "hosted sock_h S = [(''room-0'', ?r)]"
    unfolding S_def by (simp add: ev_defs hosted_def)
  have c: "received sock_l S (handleLeaveRoom sock_h ''room-0'' S) =
      [Emit ''room-0'' {sock_h, sock_l} (NewMessage (sys_destroy 0))]"
    "received sock_l S (on_disconnect sock_h (socket_close sock_h S)) =
      [Emit ''room-0'' {sock_l} (NewMessage (sys_destroy 0))]"
    "stays_gone ''room-0'' (handleLeaveRoom sock_h ''room-0'' S)"
    "stays_gone ''room-0'' (on_disconnect sock_h (socket_close sock_h S))"
    using host_departure [OF h1 h2 h3] ho by (simp_all add: a insert_Diff_if)
  show ?thesis
    unfolding S_def [symmetric] using r h2 c by (intro conjI)
qed

section \<open>Disconnect\<close>

text \<open>
  C8. For a socket that hosts no room and listens to none, the disconnect scan returns
  the state it was given: no room changed, none destroyed, nothing sent. In particular,
  in the state a \<open>disconnect\<close> of socket \<open>s\<close> leaves, \<open>s\<close> is in no room, and processing the
  \<open>disconnect\<close> of \<open>s\<close> again gives that same state.
\<close>

theorem disconnect_idempotent:
  "(in_no_room s st \<longrightarrow> on_disconnect s st = st) \<and>
   (run (evs @ [Disconnect s]) (init t) = Some st' \<longrightarrow>
      in_no_room s st' \<and> step (Disconnect s) st' = Inr st')"
proof (intro conjI impI)
  assume "in_no_room s st"
  then show "on_disconnect s st = st"
    unfolding on_disconnect_def by (rule fold_visit_noop)
next
  assume r: "run (evs @ [Disconnect s]) (init t) = Some st'"
  then obtain st1 where st1: "run evs (init t) = Some st1" "admissible (Disconnect s) st1"
      "step (Disconnect s) st1 = Inr st'"
    by (rule run_snoc)
  from st1(1) have wf1: "wf st1"
    by (rule wf_reachable)
  then have d: "distinct (map fst (rooms st1))"
    by (simp add: wf_def rooms_ok_def)
  from st1(3) have st': "st' = on_disconnect s (socket_close s st1)"
    by simp
  note f = on_disconnect_fields [OF d, of s, folded st']
  from wf1 st1(2) have "list_all (\<lambda>kr. isDemo (snd kr) \<longrightarrow> hostId (snd kr) \<noteq> s) (rooms st1)"
    by (simp add: wf_demo_host)
  then show n: "in_no_room s st'"
    unfolding in_no_room_def f(1) by (rule purge_in_no_room)
  have A: "sockets st' - {s} = sockets st'"
    unfolding f(3) by auto
  have B: "(\<lambda>ch. adapter st' ch - {s}) = adapter st'"
    unfolding f(2) by auto
  have "socket_close s st' = st'"
    unfolding socket_close_def A B by simp
  moreover from n have "on_disconnect s st' = st'"
    unfolding on_disconnect_def by (rule fold_visit_noop)
  ultimately show "step (Disconnect s) st' = Inr st'"
    by simp
qed

theorem disconnect_idempotent_witness:
  "in_no_room sock_x (init 0) \<and> on_disconnect sock_x (init 0) = init 0 \<and>
   run (scenario @ [Disconnect sock_h]) (init 0) \<noteq> None \<and>
   in_no_room sock_h (the (run (scenario @ [Disconnect sock_h]) (init 0))) \<and>
   step (Disconnect sock_h) (the (run (scenario @ [Disconnect sock_h]) (init 0))) =
     Inr (the (run (scenario @ [Disconnect sock_h]) (init 0)))"
proof -
  let ?evs = "scenario @ [Disconnect sock_h]"
  have n: "in_no_room sock_x (init 0)"
    by (simp add: ev_defs in_no_room_def)
  have r: "run ?evs (init 0) \<noteq> None"
    by (simp add: ev_defs)
  then have "run (scenario @ [Disconnect sock_h]) (init 0) = Some (the (run ?evs (init 0)))"
    by simp
  with n r disconnect_idempotent [of sock_x "init 0"]
    disconnect_idempotent [of sock_h _ scenario 0 "the (run ?evs (init 0))"]
  show ?thesis
    by blast
qed

section \<open>webrtc-signal\<close>

text \<open>
  C6, as the claim states it, fails: the target is the name of a socket.io room, and
  \<open>lobby\<close>, which is no connection, names the room of the lobby subscribers. An envelope
  addressed to \<open>lobby\<close> is not dropped: every subscriber gets it.
\<close>

theorem webrtc_signal_counterexample:
  "map_option sockets (run [Connect sock_l, JoinLobby sock_l, Connect sock_h] (init 0)) =
     Some {sock_h, sock_l} \<and>
   sent [Connect sock_l, JoinLobby sock_l, Connect sock_h,
         Signal sock_h (Some \<lparr>sig_type = Some ''offer'', sig_payload = Some ''P'',
           targetUserId = Some ''lobby''\<rparr>)] (init 0) =
     sent [Connect sock_l, JoinLobby sock_l, Connect sock_h] (init 0) @
       [Emit ''lobby'' {sock_l} (WebrtcSignal (Some ''offer'') (Some ''P'') sock_h)]"
  by (simp add: ev_defs)

text \<open>
  C6, amended. In a state reached from start-up, an envelope whose target is a connection
  identifier (twenty characters) is delivered to exactly that connection, type and payload
  as sent and the sender's identifier attached, when the connection is live, and to nobody
  otherwise; the handler does not throw and changes nothing but the outbox.
\<close>

theorem webrtc_signal_relay:
  assumes "run evs (init t) = Some st" and "length tg = 20"
  shows "on_webrtc_signal s (Some \<lparr>sig_type = ty, sig_payload = p, targetUserId = Some tg\<rparr>) st =
     Inr (st\<lparr>outbox := outbox st @
       [Emit tg (if tg \<in> sockets st then {tg} else {}) (WebrtcSignal ty p s)]\<rparr>)"
proof -
  from assms(1) have "sockets_ok st"
    using wf_reachable by (auto simp add: wf_def)
  then have "adapter st tg \<subseteq> {tg}" "adapter st tg \<subseteq> sockets st"
    "tg \<in> sockets st \<Longrightarrow> tg \<in> adapter st tg"
    using assms(2) by (auto simp add: sockets_ok_def)
  then have "adapter st tg = (if tg \<in> sockets st then {tg} else {})"
    by auto
  then show ?thesis
    by (simp add: on_webrtc_signal_def io_to_emit_def)
qed

theorem webrtc_signal_relay_witness:
  "run [Connect sock_h, Connect sock_l] (init 0) \<noteq> None \<and> length sock_l = 20 \<and>
   length sock_x = 20 \<and>
   sock_l \<in> sockets (the (run [Connect sock_h, Connect sock_l] (init 0))) \<and>
   sock_x \<notin> sockets (the (run [Connect sock_h, Connect sock_l] (init 0))) \<and>
   on_webrtc_signal sock_h (Some \<lparr>sig_type = Some ''offer'', sig_payload = Some ''P'',
       targetUserId = Some sock_l\<rparr>) (the (run [Connect sock_h, Connect sock_l] (init 0))) =
     Inr ((the (run [Connect sock_h, Connect sock_l] (init 0)))
       \<lparr>outbox := outbox (the (run [Connect sock_h, Connect sock_l] (init 0))) @
          [Emit sock_l {sock_l} (WebrtcSignal (Some ''offer'') (Some ''P'') sock_h)]\<rparr>) \<and>
   on_webrtc_signal sock_h (Some \<lparr>sig_type = Some ''offer'', sig_payload = Some ''P'',
       targetUserId = Some sock_x\<rparr>) (the (run [Connect sock_h, Connect sock_l] (init 0))) =
     Inr ((the (run [Connect sock_h, Connect sock_l] (init 0)))
       \<lparr>outbox := outbox (the (run [Connect sock_h, Connect sock_l] (init 0))) @
          [Emit sock_x {} (WebrtcSignal (Some ''offer'') (Some ''P'') sock_h)]\<rparr>)"
proof -
  let ?S = "the (run [Connect sock_h, Connect sock_l] (init 0))"
  have r: "run [Connect sock_h, Connect sock_l] (init 0) \<noteq> None"
    by (simp add: ev_defs)
  then have h: "run [Connect sock_h, Connect sock_l] (init 0) = Some ?S"
    by simp
  have s: "sock_l \<in> sockets ?S" "sock_x \<notin> sockets ?S"
    by (simp_all add: ev_defs)
  have l: "length sock_l = 20" "length sock_x = 20"
    by simp_all
  show ?thesis
    using r s l webrtc_signal_relay [OF h l(1), of sock_h "Some ''offer''" "Some ''P''"]
      webrtc_signal_relay [OF h l(2), of sock_h "Some ''offer''" "Some ''P''"]
    by simp
qed

section \<open>join-room\<close>

lemma join_room_any_state:
  "(map_of (rooms st) roomId = None \<longrightarrow>
      (\<exists>st'. on_join_room s [Str roomId, Fn] st = Inr st' \<and> rooms st' = rooms st \<and>
         outbox st' = outbox st @
           [Direct s (JoinAck (JoinFailed ''Room not found or signal lost.''))])) \<and>
   (\<forall>r. map_of (rooms st) roomId = Some r \<longrightarrow>
      (\<exists>st' r'. on_join_room s [Str roomId, Fn] st = Inr st' \<and>
         map_of (rooms st') roomId = Some r' \<and>
         r' = r\<lparr>listeners := set_add s (listeners r)\<rparr> \<and>
         s \<in> set (listeners r') \<and>
         adapter st' = (adapter st)(roomId := insert s (adapter st roomId)) \<and>
         outbox st' = outbox st @
           [Emit (hostId r) (adapter st' (hostId r)) (UserJoined s),
            Direct s (JoinAck (JoinOk (snapshot_of r'))),
            Emit ''lobby'' (adapter st' ''lobby'') (RoomList (list_rooms st'))] \<and>
         listenerCount (snapshot_of r') = length (listeners r')))"
  by (auto simp add: on_join_room_def socket_emit_def Let_def broadcastLobbyUpdate_def
      io_to_emit_def socket_join_def update_conv' set_add_def snapshot_of_def list_rooms_def)

lemma host_channel:
  assumes "wf st" and "map_of (rooms st) k = Some r"
  shows "hostId r \<noteq> k" and "adapter st (hostId r) = (if isDemo r then {} else {hostId r})"
proof -
  from assms have ok: "room_ok st k r" and so: "sockets_ok st"
    by (simp_all add: wf_def rooms_ok_def)
  show "adapter st (hostId r) = (if isDemo r then {} else {hostId r})"
  proof (cases "isDemo r")
    case True
    with ok so show ?thesis
      by (simp add: room_ok_def sockets_ok_def)
  next
    case False
    with ok have "hostId r \<in> adapter st k"
      by (simp add: room_ok_def)
    with so have "hostId r \<in> sockets st"
      by (auto simp add: sockets_ok_def)
    with so have "hostId r \<in> adapter st (hostId r)" "adapter st (hostId r) \<subseteq> {hostId r}"
      by (auto simp add: sockets_ok_def)
    with False show ?thesis
      by auto
  qed
  show "hostId r \<noteq> k"
  proof (cases "isDemo r")
    case True
    with ok show ?thesis
      by (auto simp add: room_ok_def)
  next
    case False
    with ok have "hostId r \<in> adapter st k"
      by (simp add: room_ok_def)
    with so have "length (hostId r) = 20"
      by (auto simp add: sockets_ok_def)
    with ok show ?thesis
      by (auto simp add: room_ok_def)
  qed
qed

text \<open>
  C2, as the claim states it, fails: the handler calls its second argument without looking
  at it, and a join that comes without acknowledgment callback throws, on a missing room
  as on an existing one.
\<close>

theorem join_room_counterexample:
  "run scenario (init 0) \<noteq> None \<and>
   map_of (store scenario (init 0)) ''room-9'' = None \<and>
   step (JoinRoom sock_x [Str ''room-9'']) (the (run scenario (init 0))) = Inl TypeError \<and>
   run (scenario @ [JoinRoom sock_x [Str ''room-9'']]) (init 0) = None"
  by (simp add: ev_defs)

text \<open>
  C2, amended: the join comes with its acknowledgment callback. Then, in a state reached
  from start-up, a join on an identifier with no room answers the failure acknowledgment,
  does not throw and leaves the room store as it was; a join on an existing room puts the
  requester in the listener set, emits \<open>user-joined\<close> with the requester's identifier to
  the host (for a demo room, whose host is no connection, to nobody), and acknowledges
  with a snapshot whose listener count is the size of the new set.
\<close>

theorem join_room_spec:
  assumes "run evs (init t) = Some st"
  shows
  "(map_of (rooms st) roomId = None \<longrightarrow>
      (\<exists>st'. on_join_room s [Str roomId, Fn] st = Inr st' \<and> rooms st' = rooms st \<and>
         outbox st' = outbox st @
           [Direct s (JoinAck (JoinFailed ''Room not found or signal lost.''))])) \<and>
   (\<forall>r. map_of (rooms st) roomId = Some r \<longrightarrow>
      (\<exists>st' r'. on_join_room s [Str roomId, Fn] st = Inr st' \<and>
         map_of (rooms st') roomId = Some r' \<and>
         r' = r\<lparr>listeners := set_add s (listeners r)\<rparr> \<and>
         s \<in> set (listeners r') \<and>
         outbox st' = outbox st @
           [Emit (hostId r) (if isDemo r then {} else {hostId r}) (UserJoined s),
            Direct s (JoinAck (JoinOk (snapshot_of r'))),
            Emit ''lobby'' (adapter st' ''lobby'') (RoomList (list_rooms st'))] \<and>
         listenerCount (snapshot_of r') = length (listeners r')))"
proof (intro conjI allI impI)
  assume "map_of (rooms st) roomId = None"
  then show "\<exists>st'. on_join_room s [Str roomId, Fn] st = Inr st' \<and> rooms st' = rooms st \<and>
         outbox st' = outbox st @
           [Direct s (JoinAck (JoinFailed ''Room not found or signal lost.''))]"
    using join_room_any_state [of st roomId s] by blast
next
  fix r
  assume m: "map_of (rooms st) roomId = Some r"
  from assms have wf: "wf st"
    by (rule wf_reachable)
  note h = host_channel [OF wf m]
  from m obtain st' r' where j: "on_join_room s [Str roomId, Fn] st = Inr st'"
      "map_of (rooms st') roomId = Some r'"
      "r' = r\<lparr>listeners := set_add s (listeners r)\<rparr>"
      "s \<in> set (listeners r')"
      "adapter st' = (adapter st)(roomId := insert s (adapter st roomId))"
      "outbox st' = outbox st @
           [Emit (hostId r) (adapter st' (hostId r)) (UserJoined s),
            Direct s (JoinAck (JoinOk (snapshot_of r'))),
            Emit ''lobby'' (adapter st' ''lobby'') (RoomList (list_rooms st'))]"
      "listenerCount (snapshot_of r') = length (listeners r')"
    using join_room_any_state [of st roomId s] by blast
  have "adapter st' (hostId r) = (if isDemo r then {} else {hostId r})"
    unfolding j(5) using h by simp
  with j show "\<exists>st' r'. on_join_room s [Str roomId, Fn] st = Inr st' \<and>
         map_of (rooms st') roomId = Some r' \<and>
         r' = r\<lparr>listeners := set_add s (listeners r)\<rparr> \<and>
         s \<in> set (listeners r') \<and>
         outbox st' = outbox st @
           [Emit (hostId r) (if isDemo r then {} else {hostId r}) (UserJoined s),
            Direct s (JoinAck (JoinOk (snapshot_of r'))),
            Emit ''lobby'' (adapter st' ''lobby'') (RoomList (list_rooms st'))] \<and>
         listenerCount (snapshot_of r') = length (listeners r')"
    by simp
qed

theorem join_room_spec_witness:
  "run scenario (init 0) \<noteq> None \<and>
   map_of (store scenario (init 0)) ''room-9'' = None \<and>
   (\<exists>st'. on_join_room sock_x [Str ''room-9'', Fn] (the (run scenario (init 0))) = Inr st' \<and>
      rooms st' = store scenario (init 0)) \<and>
   map_of (store scenario (init 0)) ''room-0'' =
     Some \<lparr>room_id = ''room-0'', name = Str ''Test'', streamUrl = None, hostId = sock_h,
           listeners = [sock_l], createdAt = 0, status = ''active'', isDemo = False\<rparr> \<and>
   (\<exists>st'. on_join_room sock_x [Str ''room-0'', Fn] (the (run scenario (init 0))) = Inr st' \<and>
      map_of (rooms st') ''room-0'' =
        Some \<lparr>room_id = ''room-0'', name = Str ''Test'', streamUrl = None, hostId = sock_h,
           listeners = [sock_l, sock_x], createdAt = 0, status = ''active'', isDemo = False\<rparr> \<and>
      Emit sock_h {sock_h} (UserJoined sock_x) \<in> set (outbox st'))"
proof -
  define S where "S = the (run scenario (init 0))"
  have r: "run scenario (init 0) \<noteq> None"
    by (simp add: ev_defs)
  then have h: "run scenario (init 0) = Some S"
    unfolding S_def by simp
  then have s: "store scenario (init 0) = rooms S"
    by (simp add: store_def)
  have m9: "map_of (rooms S) ''room-9'' = None"
    unfolding S_def by (simp add: ev_defs)
  have m0: "map_of (rooms S) ''room-0'' =
     Some \<lparr>room_id = ''room-0'', name = Str ''Test'', streamUrl = None, hostId = sock_h,
           listeners = [sock_l], createdAt = 0, status = ''active'', isDemo = False\<rparr>"
    unfolding S_def by (simp add: ev_defs)
  show ?thesis
    unfolding s S_def [symmetric]
    using r m9 m0 join_room_spec [OF h, of "''room-9''" sock_x]
      join_room_spec [OF h, of "''room-0''" sock_x]
    by (auto simp add: set_add_def)
qed

text \<open>
  C10. A participant already in the listener set joins again: the join succeeds, the room
  store (so the listener set) is unchanged, the acknowledged count is the size of the
  unchanged set, and \<open>user-joined\<close> goes to the host once more.
\<close>

theorem join_room_idempotent:
  assumes "run evs (init t) = Some st"
    and "map_of (rooms st) roomId = Some r" and "p \<in> set (listeners r)"
  shows "\<exists>st'. on_join_room p [Str roomId, Fn] st = Inr st' \<and> rooms st' = rooms st \<and>
           outbox st' = outbox st @
             [Emit (hostId r) (if isDemo r then {} else {hostId r}) (UserJoined p),
              Direct p (JoinAck (JoinOk (snapshot_of r))),
              Emit ''lobby'' (adapter st' ''lobby'') (RoomList (list_rooms st))] \<and>
           listenerCount (snapshot_of r) = length (listeners r)"
proof -
  from assms(1) have wf: "wf st"
    by (rule wf_reachable)
  note h = host_channel [OF wf assms(2)]
  from assms(2) obtain st' r' where j: "on_join_room p [Str roomId, Fn] st = Inr st'"
      "map_of (rooms st') roomId = Some r'"
      "r' = r\<lparr>listeners := set_add p (listeners r)\<rparr>"
      "adapter st' = (adapter st)(roomId := insert p (adapter st roomId))"
      "outbox st' = outbox st @
           [Emit (hostId r) (adapter st' (hostId r)) (UserJoined p),
            Direct p (JoinAck (JoinOk (snapshot_of r'))),
            Emit ''lobby'' (adapter st' ''lobby'') (RoomList (list_rooms st'))]"
    using join_room_any_state [of st roomId p] by blast
  from assms(3) j(3) have r': "r' = r"
    by (simp add: set_add_def)
  have g: "rooms_get st (param [Str roomId, Fn] 0) = Some (roomId, r)"
    using assms(2) by simp
  have rooms: "rooms st' = rooms st"
    using on_join_room_fields(1) [OF j(1) g] assms(2,3)
    by (simp add: set_add_def update_triv)
  have "adapter st' (hostId r) = (if isDemo r then {} else {hostId r})"
    unfolding j(4) using h by simp
  with j(1,5) r' rooms show ?thesis
    by (simp add: list_rooms_def snapshot_of_def)
qed

theorem join_room_idempotent_witness:
  "run scenario (init 0) \<noteq> None \<and>
   map_of (store scenario (init 0)) ''room-0'' =
     Some \<lparr>room_id = ''room-0'', name = Str ''Test'', streamUrl = None, hostId = sock_h,
           listeners = [sock_l], createdAt = 0, status = ''active'', isDemo = False\<rparr> \<and>
   sock_l \<in> set [sock_l] \<and>
   (\<exists>st'. on_join_room sock_l [Str ''room-0'', Fn] (the (run scenario (init 0))) = Inr st' \<and>
      rooms st' = store scenario (init 0) \<and>
      Emit sock_h {sock_h} (UserJoined sock_l) \<in> set (outbox st'))"
proof -
  define S where "S = the (run scenario (init 0))"
  have r: "run scenario (init 0) \<noteq> None"
    by (simp add: ev_defs)
  then have h: "run scenario (init 0) = Some S"
    unfolding S_def by simp
  then have s: "store scenario (init 0) = rooms S"
    by (simp add: store_def)
  have m: "map_of (rooms S) ''room-0'' =
     Some \<lparr>room_id = ''room-0'', name = Str ''Test'', streamUrl = None, hostId = sock_h,
           listeners = [sock_l], createdAt = 0, status = ''active'', isDemo = False\<rparr>"
    unfolding S_def by (simp add: ev_defs)
  show ?thesis
    unfolding s S_def [symmetric]
    using r m join_room_idempotent [OF h m, of sock_l]
    by auto
qed

section \<open>leave-room\<close>

text \<open>
  C7, as the claim states it, fails twice. With a host and a listener in \<open>room-0\<close>, a third
  connection that is neither leaves \<open>room-0\<close>: both members are sent \<open>user-left\<close>. And a
  leave on an identifier with no room sends nothing at all, no room list either.
\<close>

theorem leave_room_counterexample:
  "map_of (store scenario (init 0)) ''room-0'' =
     Some \<lparr>room_id = ''room-0'', name = Str ''Test'', streamUrl = None, hostId = sock_h,
           listeners = [sock_l], createdAt = 0, status = ''active'', isDemo = False\<rparr> \<and>
   Emit ''room-0'' {sock_h, sock_l} (UserLeft sock_x)
     \<in> set (sent (scenario @ [LeaveRoom sock_x ''room-0'']) (init 0)) \<and>
   run (scenario @ [LeaveRoom sock_x ''room-9'']) (init 0) \<noteq> None \<and>
   sent (scenario @ [LeaveRoom sock_x ''room-9'']) (init 0) = sent scenario (init 0)"
  by (simp add: ev_defs insert_commute)

text \<open>
  C7, amended. A leave on an identifier with no room changes nothing and sends nothing.
  A leave on a room whose host and listeners do not include the requester leaves the room
  store unchanged, emits \<open>user-left\<close> with the requester's identifier to the room's
  members and republishes the room list to the lobby.
\<close>

theorem leave_room_nonmember:
  "(map_of (rooms st) roomId = None \<longrightarrow> handleLeaveRoom s roomId st = st) \<and>
   (\<forall>r. map_of (rooms st) roomId = Some r \<and> hostId r \<noteq> s \<and> s \<notin> set (listeners r) \<longrightarrow>
      rooms (handleLeaveRoom s roomId st) = rooms st \<and>
      outbox (handleLeaveRoom s roomId st) = outbox st @
        [Emit roomId (adapter st roomId - {s}) (UserLeft s),
         Emit ''lobby'' (adapter (socket_leave s roomId st) ''lobby'')
           (RoomList (list_rooms st))])"
  by (auto simp add: handleLeaveRoom_def Let_def broadcastLobbyUpdate_def io_to_emit_def
      socket_leave_def update_triv set_delete_def list_rooms_def)

theorem leave_room_nonmember_witness:
  "map_of (rooms (init 0)) ''room-000001'' = None \<and>
   handleLeaveRoom sock_x ''room-000001'' (init 0) = init 0 \<and>
   map_of (rooms (init 0)) ''demo-lofi'' = Some lofi \<and>
   hostId lofi \<noteq> sock_x \<and> sock_x \<notin> set (listeners lofi) \<and>
   rooms (handleLeaveRoom sock_x ''demo-lofi'' (init 0)) = rooms (init 0)"
  using init_no_room init_lofi
    leave_room_nonmember [of "init 0" "''room-000001''" sock_x]
    leave_room_nonmember [of "init 0" "''demo-lofi''" sock_x]
  by (auto simp add: demo_room_def)

section \<open>Malformed events\<close>

text \<open>
  C9, as the claim states it, fails. A \<open>webrtc-signal\<close> without its argument object
  throws out of the handler, and so does a \<open>create-room\<close> or \<open>join-room\<close> whose second
  argument is not the callback: sent without callback, or with the callback alone, which
  then stands first. The trace has no state after the throw. And an event that does not
  throw is not ignored for lacking a field: a chat message without text, from a socket
  that is in no room, is relayed to both members of \<open>room-0\<close>.
\<close>

theorem malformed_event_counterexample:
  "step (Signal sock_h None) (socket_open sock_h (init 0)) = Inl TypeError \<and>
   step (CreateRoom sock_h [Str ''Test'']) (socket_open sock_h (init 0)) = Inl TypeError \<and>
   step (CreateRoom sock_h [Fn]) (socket_open sock_h (init 0)) = Inl TypeError \<and>
   step (JoinRoom sock_h [Str ''demo-lofi'']) (socket_open sock_h (init 0)) = Inl TypeError \<and>
   run [Connect sock_h] (init 0) \<noteq> None \<and>
   run [Connect sock_h, Signal sock_h None] (init 0) = None \<and>
   sent (scenario @ [SendMessage sock_x (Some (Some ''room-0'', None))]) (init 0) =
     sent scenario (init 0) @
       [Emit ''room-0'' {sock_h, sock_l}
          (NewMessage \<lparr>msg_id = sock_x @ ''-0'', msg_text = None, msg_system = False,
             msg_timestamp = 0, msg_userId = sock_x\<rparr>)]"
  by (simp add: ev_defs on_send_message_def insert_commute)

text \<open>
  C9, amended. An event that carries its argument object or, for \<open>create-room\<close> and
  \<open>join-room\<close>, the callback as second argument is processed without throwing, whichever
  fields are missing. A relay event then changes neither the room store nor the membership
  of any socket.io room and sends at most one message; when the missing field is the one
  that says where it goes, the event is ignored: the state is unchanged and nothing is
  sent. A \<open>join-room\<close> with its callback and no room identifier is answered with the
  failure acknowledgment and changes nothing else.
\<close>

theorem well_formed_event_handled:
  assumes "well_formed e"
  shows "\<exists>st'. step e st = Inr st' \<and>
     (relay e \<longrightarrow> rooms st' = rooms st \<and> adapter st' = adapter st \<and> sockets st' = sockets st \<and>
        (\<exists>xs. outbox st' = outbox st @ xs \<and> length xs \<le> 1)) \<and>
     (unaddressed e \<longrightarrow> st' = st) \<and>
     (\<forall>s. e = JoinRoom s [Undefined, Fn] \<longrightarrow>
        st' = socket_emit s (JoinAck (JoinFailed ''Room not found or signal lost.'')) st)"
proof (cases e)
  case (CreateRoom s ps)
  with assms show ?thesis
    by (simp add: on_create_room_def Let_def)
next
  case (JoinRoom s ps)
  with assms show ?thesis
    by (auto simp add: on_join_room_def Let_def rooms_get_def split: option.splits)
next
  case (Signal s a)
  with assms show ?thesis
    by (cases a) (auto simp add: on_webrtc_signal_def io_to_emit_def split: option.splits)
next
  case (HostStart s a)
  with assms show ?thesis
    by (cases a) (auto simp add: on_host_start_stream_def socket_to_emit_def split: option.splits)
next
  case (ListenerRequest s a)
  with assms show ?thesis
    by (cases a)
      (auto simp add: on_listener_request_connection_def io_to_emit_def split: option.splits)
next
  case (CheckStatus s a)
  with assms show ?thesis
    by (cases a) (auto simp add: on_check_stream_status_def io_to_emit_def split: option.splits)
next
  case (StatusReply s a)
  with assms show ?thesis
    by (cases a) (auto simp add: on_stream_status_reply_def io_to_emit_def split: option.splits)
next
  case (SendMessage s a)
  with assms show ?thesis
    by (cases a) (auto simp add: on_send_message_def io_to_emit_def split: option.splits)
qed (use assms in simp_all)

theorem well_formed_event_handled_witness:
  "well_formed (Signal sock_h (Some \<lparr>sig_type = Some ''offer'', sig_payload = None,
       targetUserId = None\<rparr>)) \<and>
   relay (Signal sock_h (Some \<lparr>sig_type = Some ''offer'', sig_payload = None,
       targetUserId = None\<rparr>)) \<and>
   unaddressed (Signal sock_h (Some \<lparr>sig_type = Some ''offer'', sig_payload = None,
       targetUserId = None\<rparr>)) \<and>
   step (Signal sock_h (Some \<lparr>sig_type = Some ''offer'', sig_payload = None,
       targetUserId = None\<rparr>)) (init 0) = Inr (init 0) \<and>
   well_formed (JoinRoom sock_h [Undefined, Fn]) \<and>
   step (JoinRoom sock_h [Undefined, Fn]) (init 0) =
     Inr (socket_emit sock_h (JoinAck (JoinFailed ''Room not found or signal lost.'')) (init 0))"
  using well_formed_event_handled [of "Signal sock_h (Some \<lparr>sig_type = Some ''offer'',
      sig_payload = None, targetUserId = None\<rparr>)" "init 0"]
    well_formed_event_handled [of "JoinRoom sock_h [Undefined, Fn]" "init 0"]
  by auto

section \<open>Room identifiers\<close>

text \<open>
  C4. The identifier is \<open>room-\<close> and the last six decimal digits of the clock. Two rooms
  created in the same millisecond get the same identifier, and the second replaces the first
  in the store; a room created a million milliseconds after a destroyed one gets the
  destroyed one's identifier.
\<close>

theorem create_room_id_collision:
  "map fst (store [Connect sock_h, Connect sock_l, CreateRoom sock_h [Str ''A'', Fn],
       CreateRoom sock_l [Str ''B'', Fn]] (init 1700000000000)) =
     [''demo-nts-1'', ''demo-soma-groove'', ''demo-soma-defcon'', ''demo-lofi'', ''room-000000''] \<and>
   map_of (store [Connect sock_h, Connect sock_l, CreateRoom sock_h [Str ''A'', Fn],
       CreateRoom sock_l [Str ''B'', Fn]] (init 1700000000000)) ''room-000000'' =
     Some \<lparr>room_id = ''room-000000'', name = Str ''B'', streamUrl = None, hostId = sock_l,
           listeners = [], createdAt = 1700000000000, status = ''active'', isDemo = False\<rparr> \<and>
   map fst (store [Connect sock_h, CreateRoom sock_h [Str ''A'', Fn],
       LeaveRoom sock_h ''room-000000''] (init 1700000000000)) =
     [''demo-nts-1'', ''demo-soma-groove'', ''demo-soma-defcon'', ''demo-lofi''] \<and>
   map fst (store [Connect sock_h, CreateRoom sock_h [Str ''A'', Fn],
       LeaveRoom sock_h ''room-000000'', Tick 1000000, CreateRoom sock_h [Str ''C'', Fn]]
       (init 1700000000000)) =
     [''demo-nts-1'', ''demo-soma-groove'', ''demo-soma-defcon'', ''demo-lofi'', ''room-000000'']"
  by (simp add: ev_defs)

end
